theory Spec2Isabelle
  imports Complex_Main "HOL-Library.Stream" "HOL-Library.Sublist"
begin

section \<open>Carpark vehicle spawner: data model\<close>

text \<open>
  The development embeds the spawn-position generation of \<^verbatim>\<open>spawn_carpark.py\<close> and of
  \<^verbatim>\<open>spawn_carpark_static.py\<close> (class \<^verbatim>\<open>CarparkVehicleSpawner\<close>).

  Conventions of the embedding:
  \<^item> Python floats are the real numbers: rounding, infinities and NaN are not modelled, and
    the literal \<^verbatim>\<open>0.001\<close> is the rational \<open>1/1000\<close>.
  \<^item> Python ints are \<open>int\<close>.
  \<^item> Every exception the code can raise is a value \<open>Inl e\<close> of the result type; this covers
    the explicit \<^verbatim>\<open>raise ValueError\<close>, float division by zero, \<^verbatim>\<open>math.sqrt\<close> of a negative
    number and indexing out of range.
  \<^item> The ambient generator of module \<^verbatim>\<open>random\<close> is a stream of the values that successive
    calls of \<^verbatim>\<open>random.random()\<close> return; each library call consumes one element.
  \<^item> The simulator is the function \<open>cast_ray\<close> of the world, returning the locations of the
    hits of a ray in order.
  \<^item> Console output (\<^verbatim>\<open>print\<close>) is not part of any returned value and is left out.
  \<^item> The fields \<^verbatim>\<open>x\<close>, \<^verbatim>\<open>y\<close>, \<^verbatim>\<open>z\<close> of \<^verbatim>\<open>carla.Location\<close> and of \<^verbatim>\<open>carla.Vector3D\<close> carry a
    prefix, since one HOL name cannot be a field of two records.
\<close>

datatype py_error = ValueError string | ZeroDivisionError | IndexError

record Location =
  loc_x :: real
  loc_y :: real
  loc_z :: real

record Vector3D =
  vec_x :: real
  vec_y :: real
  vec_z :: real

record Rotation =
  pitch :: real
  yaw :: real
  roll :: real

record Transform =
  location :: Location
  rotation :: Rotation

record World =
  cast_ray :: "Location \<Rightarrow> Location \<Rightarrow> Location list"

record CarparkVehicleSpawner =
  world :: World
  spawn_height :: real
  parking_offset :: real

type_synonym rng = "real stream"

section \<open>Library functions the code calls\<close>

text \<open>Float division \<^verbatim>\<open>a / b\<close>: raises \<^verbatim>\<open>ZeroDivisionError\<close> when the divisor is zero.\<close>

definition fdiv :: "real \<Rightarrow> real \<Rightarrow> py_error + real" where
  "fdiv a b = (if b = 0 then Inl ZeroDivisionError else Inr (a / b))"

text \<open>\<^verbatim>\<open>math.sqrt\<close>: raises \<^verbatim>\<open>ValueError\<close> on a negative argument.\<close>

definition math_sqrt :: "real \<Rightarrow> py_error + real" where
  "math_sqrt a = (if a < 0 then Inl (ValueError ''math domain error'') else Inr (sqrt a))"

text \<open>\<^verbatim>\<open>math.atan2(y, x)\<close>, the angle of the point \<open>(x, y)\<close> in \<open>(-\<pi>, \<pi>]\<close>, and
  \<^verbatim>\<open>math.degrees\<close>.\<close>

definition math_atan2 :: "real \<Rightarrow> real \<Rightarrow> real" where
  "math_atan2 b a =
     (if 0 < a then arctan (b / a)
      else if a < 0 \<and> 0 \<le> b then arctan (b / a) + pi
      else if a < 0 \<and> b < 0 then arctan (b / a) - pi
      else if 0 < b then pi / 2
      else if b < 0 then - (pi / 2)
      else 0)"

definition math_degrees :: "real \<Rightarrow> real" where
  "math_degrees a = a * 180 / pi"

text \<open>\<^verbatim>\<open>int(v)\<close> on a float truncates towards zero.\<close>

definition py_int :: "real \<Rightarrow> int" where
  "py_int v = (if 0 \<le> v then \<lfloor>v\<rfloor> else \<lceil>v\<rceil>)"

text \<open>\<^verbatim>\<open>random.uniform(a, b)\<close> is \<^verbatim>\<open>a + (b - a) * random()\<close>.\<close>

definition random_uniform :: "real \<Rightarrow> real \<Rightarrow> rng \<Rightarrow> real \<times> rng" where
  "random_uniform a b g = (a + (b - a) * shd g, stl g)"

text \<open>\<^verbatim>\<open>random.choice(seq)\<close> returns the element at an index derived from one draw
  (\<^verbatim>\<open>seq[int(random() * len(seq))]\<close>); an index outside the sequence, in particular any index
  into an empty sequence, raises \<^verbatim>\<open>IndexError\<close>.\<close>

definition random_choice :: "'a list \<Rightarrow> rng \<Rightarrow> py_error + ('a \<times> rng)" where
  "random_choice seq g =
     (let i = py_int (shd g * real (length seq))
      in if 0 \<le> i \<and> i < int (length seq) then Inr (seq ! nat i, stl g) else Inl IndexError)"

text \<open>The draws a well-formed generator delivers: \<^verbatim>\<open>random()\<close> lies in \<open>[0, 1)\<close>.\<close>

definition unit_draws :: "rng \<Rightarrow> bool" where
  "unit_draws g = (\<forall>r \<in> sset g. 0 \<le> r \<and> r < 1)"

section \<open>\<^verbatim>\<open>spawn_carpark.py\<close>\<close>

subsection \<open>\<^verbatim>\<open>get_ground_height\<close>\<close>

definition get_ground_height :: "CarparkVehicleSpawner \<Rightarrow> Location \<Rightarrow> real" where
  "get_ground_height self loc =
     (let start_location = \<lparr>loc_x = loc_x loc, loc_y = loc_y loc, loc_z = loc_z loc + 1000\<rparr>;
          end_location = \<lparr>loc_x = loc_x loc, loc_y = loc_y loc, loc_z = loc_z loc - 1000\<rparr>;
          hits = cast_ray (world self) start_location end_location
      in case hits of
           h # _ \<Rightarrow> loc_z h
         | [] \<Rightarrow> loc_z loc)"

subsection \<open>\<^verbatim>\<open>compute_perpendicular_vector\<close>\<close>

text \<open>The result is the pair \<open>(perp_vec, line_dir)\<close>, in the order of the source.\<close>

definition normalize_perp :: "Vector3D \<Rightarrow> py_error + Vector3D" where
  "normalize_perp perp_vec =
     (case math_sqrt ((vec_x perp_vec)\<^sup>2 + (vec_y perp_vec)\<^sup>2) of
        Inl e \<Rightarrow> Inl e
      | Inr perp_length \<Rightarrow>
          if perp_length > 1 / 1000 then
            (case fdiv (vec_x perp_vec) perp_length of
               Inl e \<Rightarrow> Inl e
             | Inr px \<Rightarrow>
                 (case fdiv (vec_y perp_vec) perp_length of
                    Inl e \<Rightarrow> Inl e
                  | Inr py \<Rightarrow> Inr \<lparr>vec_x = px, vec_y = py, vec_z = 0\<rparr>))
          else Inr \<lparr>vec_x = 1, vec_y = 0, vec_z = 0\<rparr>)"

definition compute_perpendicular_vector ::
  "Location \<Rightarrow> Location \<Rightarrow> py_error + (Vector3D \<times> Vector3D)" where
  "compute_perpendicular_vector start_loc end_loc =
     (let line_vec = \<lparr>vec_x = loc_x end_loc - loc_x start_loc,
                      vec_y = loc_y end_loc - loc_y start_loc,
                      vec_z = loc_z end_loc - loc_z start_loc\<rparr>
      in case math_sqrt ((vec_x line_vec)\<^sup>2 + (vec_y line_vec)\<^sup>2 + (vec_z line_vec)\<^sup>2) of
           Inl e \<Rightarrow> Inl e
         | Inr line_length \<Rightarrow>
             if line_length < 1 / 1000 then
               Inr (\<lparr>vec_x = 1, vec_y = 0, vec_z = 0\<rparr>, \<lparr>vec_x = 1, vec_y = 0, vec_z = 0\<rparr>)
             else
               (case fdiv (vec_x line_vec) line_length of
                  Inl e \<Rightarrow> Inl e
                | Inr dx \<Rightarrow>
                    (case fdiv (vec_y line_vec) line_length of
                       Inl e \<Rightarrow> Inl e
                     | Inr dy \<Rightarrow>
                         (case fdiv (vec_z line_vec) line_length of
                            Inl e \<Rightarrow> Inl e
                          | Inr dz \<Rightarrow>
                              (let line_dir = \<lparr>vec_x = dx, vec_y = dy, vec_z = dz\<rparr>
                               in case normalize_perp
                                         \<lparr>vec_x = - vec_y line_dir, vec_y = vec_x line_dir,
                                          vec_z = 0\<rparr> of
                                    Inl e \<Rightarrow> Inl e
                                  | Inr perp_vec \<Rightarrow> Inr (perp_vec, line_dir))))))"

text \<open>The Euclidean distance between the two end points of a segment.\<close>

definition segment_length :: "Location \<Rightarrow> Location \<Rightarrow> real" where
  "segment_length start_loc end_loc =
     sqrt ((loc_x end_loc - loc_x start_loc)\<^sup>2 + (loc_y end_loc - loc_y start_loc)\<^sup>2
           + (loc_z end_loc - loc_z start_loc)\<^sup>2)"

subsection \<open>\<^verbatim>\<open>generate_spawn_positions\<close>\<close>

text \<open>The side selection at the head of the function; any other string raises.\<close>

definition sides_to_use :: "string \<Rightarrow> py_error + string list" where
  "sides_to_use side_type =
     (if side_type = ''left'' then Inr [''left'']
      else if side_type = ''right'' then Inr [''right'']
      else if side_type = ''both'' then Inr [''left'', ''right'']
      else Inl (ValueError (''Invalid side_type: '' @ side_type
                  @ ''. Must be 'left', 'right', or 'both'' @ [CHR 0x27])))"

text \<open>The capacity clamp: \<^verbatim>\<open>max_vehicles = int(line_length / min_spacing)\<close>, and the requested
  count is lowered to it when it is larger.\<close>

definition clamp_num_vehicles :: "real \<Rightarrow> int \<Rightarrow> real \<Rightarrow> py_error + int" where
  "clamp_num_vehicles line_length num_vehicles min_spacing =
     (case fdiv line_length min_spacing of
        Inl e \<Rightarrow> Inl e
      | Inr q \<Rightarrow>
          (let max_vehicles = py_int q
           in if num_vehicles > max_vehicles then Inr max_vehicles else Inr num_vehicles))"

text \<open>The \<^verbatim>\<open>for i in range(num_vehicles)\<close> loop; the first argument counts the iterations
  that remain. The state is \<open>(positions, current_pos)\<close> and the generator.\<close>

fun primary_pass ::
  "nat \<Rightarrow> real \<Rightarrow> real \<Rightarrow> rng \<Rightarrow> real list \<Rightarrow> real \<Rightarrow> real list \<times> real \<times> rng" where
  "primary_pass 0 line_length min_spacing g positions current_pos =
     (positions, current_pos, g)"
| "primary_pass (Suc i) line_length min_spacing g positions current_pos =
     (let (r, g') = random_uniform 0 min_spacing g;
          spacing = min_spacing + r
      in if current_pos + spacing > line_length then (positions, current_pos, g')
         else primary_pass i line_length min_spacing g'
                (positions @ [current_pos]) (current_pos + spacing))"

text \<open>The \<^verbatim>\<open>while len(positions) < num_vehicles and current_pos < line_length\<close> loop.\<close>

function backfill_pass ::
  "int \<Rightarrow> real \<Rightarrow> real \<Rightarrow> rng \<Rightarrow> real list \<Rightarrow> real \<Rightarrow> real list \<times> real \<times> rng" where
  "backfill_pass num_vehicles line_length min_spacing g positions current_pos =
     (if int (length positions) < num_vehicles \<and> current_pos < line_length then
        (let (r, g') = random_uniform 0 (min_spacing * (1 / 2)) g;
             spacing = min_spacing + r
         in if current_pos + spacing \<le> line_length then
              backfill_pass num_vehicles line_length min_spacing g'
                (positions @ [current_pos]) (current_pos + spacing)
            else (positions, current_pos, g'))
      else (positions, current_pos, g))"
  by pat_completeness auto
termination
  by (relation "measure (\<lambda>(num_vehicles, line_length, min_spacing, g, positions, current_pos).
        nat (num_vehicles - int (length positions)))") auto

declare backfill_pass.simps [simp del]

text \<open>Both passes, from \<open>positions = []\<close> and \<open>current_pos = 0.0\<close>.\<close>

definition spawn_distances :: "real \<Rightarrow> int \<Rightarrow> real \<Rightarrow> rng \<Rightarrow> real list \<times> rng" where
  "spawn_distances line_length num_vehicles min_spacing g =
     (case primary_pass (nat num_vehicles) line_length min_spacing g [] 0 of
        (positions, current_pos, g') \<Rightarrow>
          (case backfill_pass num_vehicles line_length min_spacing g' positions current_pos of
             (positions', current_pos', g'') \<Rightarrow> (positions', g'')))"

text \<open>The yaw before the random variation: the bearing of the line, turned by the side.\<close>

definition side_yaw :: "Vector3D \<Rightarrow> string \<Rightarrow> real" where
  "side_yaw line_dir side =
     (let base_yaw = math_degrees (math_atan2 (vec_y line_dir) (vec_x line_dir))
      in if side = ''left'' then base_yaw + 90
         else if side = ''right'' then base_yaw - 90
         else (if side = ''left'' then base_yaw + 90 else base_yaw - 90))"

text \<open>The point of the middle line at distance \<open>pos_along_line\<close>, moved sideways by the
  parking offset; its \<open>z\<close> is that of the point of the line.\<close>

definition parking_position ::
  "CarparkVehicleSpawner \<Rightarrow> Location \<Rightarrow> Location \<Rightarrow> Vector3D \<Rightarrow> real \<Rightarrow> string \<Rightarrow> real \<Rightarrow>
   py_error + Location" where
  "parking_position self start_loc end_loc perp_vec line_length side pos_along_line =
     (case (if line_length > 0 then fdiv pos_along_line line_length else Inr 0) of
        Inl e \<Rightarrow> Inl e
      | Inr t \<Rightarrow>
          (let line_pos = \<lparr>loc_x = loc_x start_loc + t * (loc_x end_loc - loc_x start_loc),
                           loc_y = loc_y start_loc + t * (loc_y end_loc - loc_y start_loc),
                           loc_z = loc_z start_loc + t * (loc_z end_loc - loc_z start_loc)\<rparr>;
               offset_direction = (if side = ''right'' then 1 else - 1)
           in Inr \<lparr>loc_x = loc_x line_pos + offset_direction * parking_offset self * vec_x perp_vec,
                   loc_y = loc_y line_pos + offset_direction * parking_offset self * vec_y perp_vec,
                   loc_z = loc_z line_pos\<rparr>))"

text \<open>One iteration of \<^verbatim>\<open>for pos_along_line in positions\<close>.\<close>

definition spawn_transform_at ::
  "CarparkVehicleSpawner \<Rightarrow> Location \<Rightarrow> Location \<Rightarrow> string list \<Rightarrow> Vector3D \<Rightarrow> Vector3D \<Rightarrow>
   real \<Rightarrow> real \<Rightarrow> rng \<Rightarrow> py_error + ((Transform \<times> string) \<times> rng)" where
  "spawn_transform_at self start_loc end_loc sides perp_vec line_dir line_length
       pos_along_line g =
     (case (if length sides > 1 then random_choice sides g
            else (case sides of [] \<Rightarrow> Inl IndexError | s # _ \<Rightarrow> Inr (s, g))) of
        Inl e \<Rightarrow> Inl e
      | Inr (side, g') \<Rightarrow>
          (case parking_position self start_loc end_loc perp_vec line_length side
                  pos_along_line of
             Inl e \<Rightarrow> Inl e
           | Inr parking_pos \<Rightarrow>
               (let ground_z = get_ground_height self parking_pos;
                    parking_pos' = parking_pos\<lparr>loc_z := ground_z + spawn_height self\<rparr>;
                    (r, g'') = random_uniform (- 2) 2 g';
                    yaw_final = side_yaw line_dir side + r;
                    spawn_transform =
                      \<lparr>location = parking_pos',
                       rotation = \<lparr>pitch = 0, yaw = yaw_final, roll = 0\<rparr>\<rparr>
                in Inr ((spawn_transform, side), g''))))"

text \<open>The whole \<^verbatim>\<open>for pos_along_line in positions\<close> loop, collecting \<open>spawn_transforms\<close>.\<close>

fun spawn_transforms_loop ::
  "CarparkVehicleSpawner \<Rightarrow> Location \<Rightarrow> Location \<Rightarrow> string list \<Rightarrow> Vector3D \<Rightarrow> Vector3D \<Rightarrow>
   real \<Rightarrow> real list \<Rightarrow> rng \<Rightarrow> py_error + (Transform \<times> string) list" where
  "spawn_transforms_loop self start_loc end_loc sides perp_vec line_dir line_length [] g =
     Inr []"
| "spawn_transforms_loop self start_loc end_loc sides perp_vec line_dir line_length
       (pos_along_line # positions) g =
     (case spawn_transform_at self start_loc end_loc sides perp_vec line_dir line_length
             pos_along_line g of
        Inl e \<Rightarrow> Inl e
      | Inr (ts, g') \<Rightarrow>
          (case spawn_transforms_loop self start_loc end_loc sides perp_vec line_dir
                  line_length positions g' of
             Inl e \<Rightarrow> Inl e
           | Inr rest \<Rightarrow> Inr (ts # rest)))"

text \<open>Lines 152 to 188 of the function: the length of the line, the capacity clamp and the
  two passes. The result is \<open>(line_length, positions)\<close> and the generator after the draws.\<close>

definition pack_positions ::
  "Location \<Rightarrow> Location \<Rightarrow> int \<Rightarrow> real \<Rightarrow> rng \<Rightarrow> py_error + (real \<times> real list \<times> rng)" where
  "pack_positions start_loc end_loc num_vehicles min_spacing g =
     (case math_sqrt ((loc_x end_loc - loc_x start_loc)\<^sup>2
                      + (loc_y end_loc - loc_y start_loc)\<^sup>2
                      + (loc_z end_loc - loc_z start_loc)\<^sup>2) of
        Inl e \<Rightarrow> Inl e
      | Inr line_length \<Rightarrow>
          (case clamp_num_vehicles line_length num_vehicles min_spacing of
             Inl e \<Rightarrow> Inl e
           | Inr num_vehicles' \<Rightarrow>
               (case spawn_distances line_length num_vehicles' min_spacing g of
                  (positions, g') \<Rightarrow> Inr (line_length, positions, g'))))"

definition generate_spawn_positions ::
  "CarparkVehicleSpawner \<Rightarrow> rng \<Rightarrow> Location \<Rightarrow> Location \<Rightarrow> string \<Rightarrow> int \<Rightarrow> real \<Rightarrow>
   py_error + (Transform \<times> string) list" where
  "generate_spawn_positions self g start_loc end_loc side_type num_vehicles min_spacing =
     (case compute_perpendicular_vector start_loc end_loc of
        Inl e \<Rightarrow> Inl e
      | Inr (perp_vec, line_dir) \<Rightarrow>
          (case sides_to_use side_type of
             Inl e \<Rightarrow> Inl e
           | Inr sides \<Rightarrow>
               (case pack_positions start_loc end_loc num_vehicles min_spacing g of
                  Inl e \<Rightarrow> Inl e
                | Inr (line_length, positions, g') \<Rightarrow>
                    spawn_transforms_loop self start_loc end_loc sides perp_vec line_dir
                      line_length positions g')))"

subsection \<open>\<^verbatim>\<open>filter_vehicles_for_line\<close>\<close>

text \<open>A blueprint is opaque but for its \<^verbatim>\<open>id\<close>. \<^verbatim>\<open>str.lower\<close> is modelled on ASCII: the letters
  \<open>A\<close> to \<open>Z\<close> are mapped to \<open>a\<close> to \<open>z\<close> and every other character is kept.\<close>

record ActorBlueprint =
  bp_id :: string

definition lower_char :: "char \<Rightarrow> char" where
  "lower_char c =
     (let k = (of_char c :: nat) in if 65 \<le> k \<and> k \<le> 90 then char_of (k + 32) else c)"

definition str_lower :: "string \<Rightarrow> string" where
  "str_lower s = map lower_char s"

text \<open>\<^verbatim>\<open>sub in s\<close> on strings: \<open>sub\<close> starts at some position of \<open>s\<close>.\<close>

fun str_contains :: "string \<Rightarrow> string \<Rightarrow> bool" where
  "str_contains [] sub = (sub = [])"
| "str_contains (c # cs) sub = (prefix sub (c # cs) \<or> str_contains cs sub)"

text \<open>The loop over \<^verbatim>\<open>vehicle_blueprints\<close>, with the list \<open>filtered\<close> built so far.\<close>

fun filter_loop ::
  "'a ActorBlueprint_scheme list \<Rightarrow> string list \<Rightarrow> 'a ActorBlueprint_scheme list \<Rightarrow>
   'a ActorBlueprint_scheme list" where
  "filter_loop [] exclude_keywords filtered = filtered"
| "filter_loop (bp # vehicle_blueprints) exclude_keywords filtered =
     (let bp_id_lower = str_lower (bp_id bp);
          is_excluded = list_ex (\<lambda>keyword. str_contains bp_id_lower (str_lower keyword))
                          exclude_keywords
      in if \<not> is_excluded then filter_loop vehicle_blueprints exclude_keywords (filtered @ [bp])
         else filter_loop vehicle_blueprints exclude_keywords filtered)"

text \<open>The argument \<^verbatim>\<open>exclude_keywords=None\<close> is \<open>None\<close>; the method does not use \<^verbatim>\<open>self\<close>.\<close>

definition filter_vehicles_for_line ::
  "'a ActorBlueprint_scheme list \<Rightarrow> string list option \<Rightarrow> 'a ActorBlueprint_scheme list" where
  "filter_vehicles_for_line vehicle_blueprints exclude_keywords =
     (let exclude_keywords' = (case exclude_keywords of None \<Rightarrow> [] | Some ks \<Rightarrow> ks)
      in filter_loop vehicle_blueprints exclude_keywords' [])"

section \<open>\<^verbatim>\<open>spawn_carpark_static.py\<close>\<close>

text \<open>The class of the second script has two more attributes; the functions below are the
  translation of its own text of the three methods, which draw on the same library.\<close>

record StaticCarparkVehicleSpawner = CarparkVehicleSpawner +
  use_static_props :: bool
  prop_mass :: real

subsection \<open>\<^verbatim>\<open>get_ground_height\<close>\<close>

definition get_ground_height_static :: "StaticCarparkVehicleSpawner \<Rightarrow> Location \<Rightarrow> real" where
  "get_ground_height_static self loc =
     (let start_location = \<lparr>loc_x = loc_x loc, loc_y = loc_y loc, loc_z = loc_z loc + 1000\<rparr>;
          end_location = \<lparr>loc_x = loc_x loc, loc_y = loc_y loc, loc_z = loc_z loc - 1000\<rparr>;
          hits = cast_ray (world self) start_location end_location
      in case hits of
           h # _ \<Rightarrow> loc_z h
         | [] \<Rightarrow> loc_z loc)"

subsection \<open>\<^verbatim>\<open>compute_perpendicular_vector\<close>\<close>

text \<open>The result is the pair \<open>(perp_vec, line_dir)\<close>, in the order of the source.\<close>

definition normalize_perp_static :: "Vector3D \<Rightarrow> py_error + Vector3D" where
  "normalize_perp_static perp_vec =
     (case math_sqrt ((vec_x perp_vec)\<^sup>2 + (vec_y perp_vec)\<^sup>2) of
        Inl e \<Rightarrow> Inl e
      | Inr perp_length \<Rightarrow>
          if perp_length > 1 / 1000 then
            (case fdiv (vec_x perp_vec) perp_length of
               Inl e \<Rightarrow> Inl e
             | Inr px \<Rightarrow>
                 (case fdiv (vec_y perp_vec) perp_length of
                    Inl e \<Rightarrow> Inl e
                  | Inr py \<Rightarrow> Inr \<lparr>vec_x = px, vec_y = py, vec_z = 0\<rparr>))
          else Inr \<lparr>vec_x = 1, vec_y = 0, vec_z = 0\<rparr>)"

definition compute_perpendicular_vector_static ::
  "Location \<Rightarrow> Location \<Rightarrow> py_error + (Vector3D \<times> Vector3D)" where
  "compute_perpendicular_vector_static start_loc end_loc =
     (let line_vec = \<lparr>vec_x = loc_x end_loc - loc_x start_loc,
                      vec_y = loc_y end_loc - loc_y start_loc,
                      vec_z = loc_z end_loc - loc_z start_loc\<rparr>
      in case math_sqrt ((vec_x line_vec)\<^sup>2 + (vec_y line_vec)\<^sup>2 + (vec_z line_vec)\<^sup>2) of
           Inl e \<Rightarrow> Inl e
         | Inr line_length \<Rightarrow>
             if line_length < 1 / 1000 then
               Inr (\<lparr>vec_x = 1, vec_y = 0, vec_z = 0\<rparr>, \<lparr>vec_x = 1, vec_y = 0, vec_z = 0\<rparr>)
             else
               (case fdiv (vec_x line_vec) line_length of
                  Inl e \<Rightarrow> Inl e
                | Inr dx \<Rightarrow>
                    (case fdiv (vec_y line_vec) line_length of
                       Inl e \<Rightarrow> Inl e
                     | Inr dy \<Rightarrow>
                         (case fdiv (vec_z line_vec) line_length of
                            Inl e \<Rightarrow> Inl e
                          | Inr dz \<Rightarrow>
                              (let line_dir = \<lparr>vec_x = dx, vec_y = dy, vec_z = dz\<rparr>
                               in case normalize_perp_static
                                         \<lparr>vec_x = - vec_y line_dir, vec_y = vec_x line_dir,
                                          vec_z = 0\<rparr> of
                                    Inl e \<Rightarrow> Inl e
                                  | Inr perp_vec \<Rightarrow> Inr (perp_vec, line_dir))))))"

subsection \<open>\<^verbatim>\<open>generate_spawn_positions\<close>\<close>

text \<open>The side selection at the head of the function; any other string raises.\<close>

definition sides_to_use_static :: "string \<Rightarrow> py_error + string list" where
  "sides_to_use_static side_type =
     (if side_type = ''left'' then Inr [''left'']
      else if side_type = ''right'' then Inr [''right'']
      else if side_type = ''both'' then Inr [''left'', ''right'']
      else Inl (ValueError (''Invalid side_type: '' @ side_type
                  @ ''. Must be 'left', 'right', or 'both'' @ [CHR 0x27])))"

text \<open>The capacity clamp: \<^verbatim>\<open>max_vehicles = int(line_length / min_spacing)\<close>, and the requested
  count is lowered to it when it is larger.\<close>

definition clamp_num_vehicles_static :: "real \<Rightarrow> int \<Rightarrow> real \<Rightarrow> py_error + int" where
  "clamp_num_vehicles_static line_length num_vehicles min_spacing =
     (case fdiv line_length min_spacing of
        Inl e \<Rightarrow> Inl e
      | Inr q \<Rightarrow>
          (let max_vehicles = py_int q
           in if num_vehicles > max_vehicles then Inr max_vehicles else Inr num_vehicles))"

text \<open>The \<^verbatim>\<open>for i in range(num_vehicles)\<close> loop; the first argument counts the iterations
  that remain. The state is \<open>(positions, current_pos)\<close> and the generator.\<close>

fun primary_pass_static ::
  "nat \<Rightarrow> real \<Rightarrow> real \<Rightarrow> rng \<Rightarrow> real list \<Rightarrow> real \<Rightarrow> real list \<times> real \<times> rng" where
  "primary_pass_static 0 line_length min_spacing g positions current_pos =
     (positions, current_pos, g)"
| "primary_pass_static (Suc i) line_length min_spacing g positions current_pos =
     (let (r, g') = random_uniform 0 min_spacing g;
          spacing = min_spacing + r
      in if current_pos + spacing > line_length then (positions, current_pos, g')
         else primary_pass_static i line_length min_spacing g'
                (positions @ [current_pos]) (current_pos + spacing))"

text \<open>The \<^verbatim>\<open>while len(positions) < num_vehicles and current_pos < line_length\<close> loop.\<close>

function backfill_pass_static ::
  "int \<Rightarrow> real \<Rightarrow> real \<Rightarrow> rng \<Rightarrow> real list \<Rightarrow> real \<Rightarrow> real list \<times> real \<times> rng" where
  "backfill_pass_static num_vehicles line_length min_spacing g positions current_pos =
     (if int (length positions) < num_vehicles \<and> current_pos < line_length then
        (let (r, g') = random_uniform 0 (min_spacing * (1 / 2)) g;
             spacing = min_spacing + r
         in if current_pos + spacing \<le> line_length then
              backfill_pass_static num_vehicles line_length min_spacing g'
                (positions @ [current_pos]) (current_pos + spacing)
            else (positions, current_pos, g'))
      else (positions, current_pos, g))"
  by pat_completeness auto
termination
  by (relation "measure (\<lambda>(num_vehicles, line_length, min_spacing, g, positions, current_pos).
        nat (num_vehicles - int (length positions)))") auto

declare backfill_pass_static.simps [simp del]

text \<open>Both passes, from \<open>positions = []\<close> and \<open>current_pos = 0.0\<close>.\<close>

definition spawn_distances_static :: "real \<Rightarrow> int \<Rightarrow> real \<Rightarrow> rng \<Rightarrow> real list \<times> rng" where
  "spawn_distances_static line_length num_vehicles min_spacing g =
     (case primary_pass_static (nat num_vehicles) line_length min_spacing g [] 0 of
        (positions, current_pos, g') \<Rightarrow>
          (case backfill_pass_static num_vehicles line_length min_spacing g' positions current_pos of
             (positions', current_pos', g'') \<Rightarrow> (positions', g'')))"

text \<open>The yaw before the random variation: the bearing of the line, turned by the side.\<close>

definition side_yaw_static :: "Vector3D \<Rightarrow> string \<Rightarrow> real" where
  "side_yaw_static line_dir side =
     (let base_yaw = math_degrees (math_atan2 (vec_y line_dir) (vec_x line_dir))
      in if side = ''left'' then base_yaw + 90
         else if side = ''right'' then base_yaw - 90
         else (if side = ''left'' then base_yaw + 90 else base_yaw - 90))"

text \<open>The point of the middle line at distance \<open>pos_along_line\<close>, moved sideways by the
  parking offset; its \<open>z\<close> is that of the point of the line.\<close>

definition parking_position_static ::
  "StaticCarparkVehicleSpawner \<Rightarrow> Location \<Rightarrow> Location \<Rightarrow> Vector3D \<Rightarrow> real \<Rightarrow> string \<Rightarrow> real \<Rightarrow>
   py_error + Location" where
  "parking_position_static self start_loc end_loc perp_vec line_length side pos_along_line =
     (case (if line_length > 0 then fdiv pos_along_line line_length else Inr 0) of
        Inl e \<Rightarrow> Inl e
      | Inr t \<Rightarrow>
          (let line_pos = \<lparr>loc_x = loc_x start_loc + t * (loc_x end_loc - loc_x start_loc),
                           loc_y = loc_y start_loc + t * (loc_y end_loc - loc_y start_loc),
                           loc_z = loc_z start_loc + t * (loc_z end_loc - loc_z start_loc)\<rparr>;
               offset_direction = (if side = ''right'' then 1 else - 1)
           in Inr \<lparr>loc_x = loc_x line_pos + offset_direction * parking_offset self * vec_x perp_vec,
                   loc_y = loc_y line_pos + offset_direction * parking_offset self * vec_y perp_vec,
                   loc_z = loc_z line_pos\<rparr>))"

text \<open>One iteration of \<^verbatim>\<open>for pos_along_line in positions\<close>.\<close>

definition spawn_transform_at_static ::
  "StaticCarparkVehicleSpawner \<Rightarrow> Location \<Rightarrow> Location \<Rightarrow> string list \<Rightarrow> Vector3D \<Rightarrow> Vector3D \<Rightarrow>
   real \<Rightarrow> real \<Rightarrow> rng \<Rightarrow> py_error + ((Transform \<times> string) \<times> rng)" where
  "spawn_transform_at_static self start_loc end_loc sides perp_vec line_dir line_length
       pos_along_line g =
     (case (if length sides > 1 then random_choice sides g
            else (case sides of [] \<Rightarrow> Inl IndexError | s # _ \<Rightarrow> Inr (s, g))) of
        Inl e \<Rightarrow> Inl e
      | Inr (side, g') \<Rightarrow>
          (case parking_position_static self start_loc end_loc perp_vec line_length side
                  pos_along_line of
             Inl e \<Rightarrow> Inl e
           | Inr parking_pos \<Rightarrow>
               (let ground_z = get_ground_height_static self parking_pos;
                    parking_pos' = parking_pos\<lparr>loc_z := ground_z + spawn_height self\<rparr>;
                    (r, g'') = random_uniform (- 2) 2 g';
                    yaw_final = side_yaw_static line_dir side + r;
                    spawn_transform =
                      \<lparr>location = parking_pos',
                       rotation = \<lparr>pitch = 0, yaw = yaw_final, roll = 0\<rparr>\<rparr>
                in Inr ((spawn_transform, side), g''))))"

text \<open>The whole \<^verbatim>\<open>for pos_along_line in positions\<close> loop, collecting \<open>spawn_transforms\<close>.\<close>

fun spawn_transforms_loop_static ::
  "StaticCarparkVehicleSpawner \<Rightarrow> Location \<Rightarrow> Location \<Rightarrow> string list \<Rightarrow> Vector3D \<Rightarrow> Vector3D \<Rightarrow>
   real \<Rightarrow> real list \<Rightarrow> rng \<Rightarrow> py_error + (Transform \<times> string) list" where
  "spawn_transforms_loop_static self start_loc end_loc sides perp_vec line_dir line_length [] g =
     Inr []"
| "spawn_transforms_loop_static self start_loc end_loc sides perp_vec line_dir line_length
       (pos_along_line # positions) g =
     (case spawn_transform_at_static self start_loc end_loc sides perp_vec line_dir line_length
             pos_along_line g of
        Inl e \<Rightarrow> Inl e
      | Inr (ts, g') \<Rightarrow>
          (case spawn_transforms_loop_static self start_loc end_loc sides perp_vec line_dir
                  line_length positions g' of
             Inl e \<Rightarrow> Inl e
           | Inr rest \<Rightarrow> Inr (ts # rest)))"

text \<open>Lines 179 to 215 of the function: the length of the line, the capacity clamp and the
  two passes. The result is \<open>(line_length, positions)\<close> and the generator after the draws.\<close>

definition pack_positions_static ::
  "Location \<Rightarrow> Location \<Rightarrow> int \<Rightarrow> real \<Rightarrow> rng \<Rightarrow> py_error + (real \<times> real list \<times> rng)" where
  "pack_positions_static start_loc end_loc num_vehicles min_spacing g =
     (case math_sqrt ((loc_x end_loc - loc_x start_loc)\<^sup>2
                      + (loc_y end_loc - loc_y start_loc)\<^sup>2
                      + (loc_z end_loc - loc_z start_loc)\<^sup>2) of
        Inl e \<Rightarrow> Inl e
      | Inr line_length \<Rightarrow>
          (case clamp_num_vehicles_static line_length num_vehicles min_spacing of
             Inl e \<Rightarrow> Inl e
           | Inr num_vehicles' \<Rightarrow>
               (case spawn_distances_static line_length num_vehicles' min_spacing g of
                  (positions, g') \<Rightarrow> Inr (line_length, positions, g'))))"

definition generate_spawn_positions_static ::
  "StaticCarparkVehicleSpawner \<Rightarrow> rng \<Rightarrow> Location \<Rightarrow> Location \<Rightarrow> string \<Rightarrow> int \<Rightarrow> real \<Rightarrow>
   py_error + (Transform \<times> string) list" where
  "generate_spawn_positions_static self g start_loc end_loc side_type num_vehicles min_spacing =
     (case compute_perpendicular_vector_static start_loc end_loc of
        Inl e \<Rightarrow> Inl e
      | Inr (perp_vec, line_dir) \<Rightarrow>
          (case sides_to_use_static side_type of
             Inl e \<Rightarrow> Inl e
           | Inr sides \<Rightarrow>
               (case pack_positions_static start_loc end_loc num_vehicles min_spacing g of
                  Inl e \<Rightarrow> Inl e
                | Inr (line_length, positions, g') \<Rightarrow>
                    spawn_transforms_loop_static self start_loc end_loc sides perp_vec line_dir
                      line_length positions g')))"

section \<open>Predicates of the statements\<close>

text \<open>The state of the two packing loops is sound for spacing \<open>S\<close> on a line of length \<open>L\<close>:
  any two placements are at least \<open>S\<close> apart in the order of generation, every placement lies
  in \<open>[0, L]\<close> and at least \<open>S\<close> before the cumulative distance, which is not negative.\<close>

definition packing_inv :: "real \<Rightarrow> real \<Rightarrow> real list \<Rightarrow> real \<Rightarrow> bool" where
  "packing_inv S L positions current_pos =
     (sorted_wrt (\<lambda>a b. a + S \<le> b) positions
      \<and> (\<forall>d \<in> set positions. 0 \<le> d \<and> d \<le> L \<and> d + S \<le> current_pos)
      \<and> 0 \<le> current_pos)"

text \<open>From index \<open>m\<close> on, each element of a list of cumulative distances exceeds the one
  before it by at least \<open>lo\<close> and by less than \<open>hi\<close>.\<close>

definition spacing_within :: "nat \<Rightarrow> real \<Rightarrow> real \<Rightarrow> real list \<Rightarrow> bool" where
  "spacing_within m lo hi ds =
     (\<forall>i. m \<le> i \<longrightarrow> Suc i < length ds \<longrightarrow>
          lo \<le> ds ! Suc i - ds ! i \<and> ds ! Suc i - ds ! i < hi)"

text \<open>The three side specifications the function accepts.\<close>

definition valid_side_type :: "string \<Rightarrow> bool" where
  "valid_side_type side_type =
     (side_type = ''left'' \<or> side_type = ''right'' \<or> side_type = ''both'')"

text \<open>A world in which no ray hits anything, and a spawner on it with the default
  \<^verbatim>\<open>spawn_height=50.0\<close> and \<^verbatim>\<open>parking_offset=2.5\<close> of the constructor; they are the concrete
  inputs of the examples below.\<close>

definition void_world :: World where
  "void_world = \<lparr>cast_ray = (\<lambda>a b. [])\<rparr>"

definition default_spawner :: CarparkVehicleSpawner where
  "default_spawner = \<lparr>world = void_world, spawn_height = 50, parking_offset = 5 / 2\<rparr>"

definition point :: "real \<Rightarrow> real \<Rightarrow> real \<Rightarrow> Location" where
  "point a b c = \<lparr>loc_x = a, loc_y = b, loc_z = c\<rparr>"

text \<open>The direction of a line running due east, and the two placements the function makes for
  the line from \<open>(0, 0, 0)\<close> to \<open>(30, 0, 0)\<close>, side \<open>left\<close>, three vehicles requested, spacing
  \<open>10\<close>, when every draw is \<open>1/2\<close>.\<close>

definition east :: Vector3D where
  "east = \<lparr>vec_x = 1, vec_y = 0, vec_z = 0\<rparr>"

definition east_placements :: "(Transform \<times> string) list" where
  "east_placements =
     [(\<lparr>location = point 0 (- (5 / 2)) 50,
        rotation = \<lparr>pitch = 0, yaw = 90, roll = 0\<rparr>\<rparr>, ''left''),
      (\<lparr>location = point 15 (- (5 / 2)) 50,
        rotation = \<lparr>pitch = 0, yaw = 90, roll = 0\<rparr>\<rparr>, ''left'')]"

text \<open>The spawner of the second script with the defaults of its constructor, on the same
  world.\<close>

definition default_static_spawner :: StaticCarparkVehicleSpawner where
  "default_static_spawner =
     \<lparr>world = void_world, spawn_height = 50, parking_offset = 5 / 2,
      use_static_props = True, prop_mass = 100\<rparr>"

section \<open>Properties\<close>

lemma math_sqrt_total: "0 \<le> a \<Longrightarrow> math_sqrt a = Inr (sqrt a)"
  by (simp add: math_sqrt_def)

lemma normalize_perp_total: "\<exists>v. normalize_perp p = Inr v"
proof -
  let ?q = "(vec_x p)\<^sup>2 + (vec_y p)\<^sup>2"
  have q: "math_sqrt ?q = Inr (sqrt ?q)"
    by (simp add: math_sqrt_total)
  show ?thesis
  proof (cases "sqrt ?q > 1 / 1000")
    case True
    then have "sqrt ?q \<noteq> 0" by auto
    with True show ?thesis
      by (simp add: normalize_perp_def q fdiv_def)
  next
    case False
    then show ?thesis
      by (simp add: normalize_perp_def q)
  qed
qed

lemma compute_perpendicular_vector_total:
  "\<exists>r. compute_perpendicular_vector s e = Inr r"
proof -
  let ?q = "(loc_x e - loc_x s)\<^sup>2 + (loc_y e - loc_y s)\<^sup>2 + (loc_z e - loc_z s)\<^sup>2"
  have q: "math_sqrt ?q = Inr (sqrt ?q)"
    by (simp add: math_sqrt_total)
  show ?thesis
  proof (cases "sqrt ?q < 1 / 1000")
    case True
    then show ?thesis
      by (simp add: compute_perpendicular_vector_def q)
  next
    case False
    then have nz: "sqrt ?q \<noteq> 0" by auto
    obtain v where v: "normalize_perp
        \<lparr>vec_x = - ((loc_y e - loc_y s) / sqrt ?q), vec_y = (loc_x e - loc_x s) / sqrt ?q,
         vec_z = 0\<rparr> = Inr v"
      using normalize_perp_total by blast
    from False nz v show ?thesis
      by (simp add: compute_perpendicular_vector_def q fdiv_def Let_def)
  qed
qed

lemma compute_perpendicular_vector_degenerate:
  "segment_length s e < 1 / 1000 \<Longrightarrow>
   compute_perpendicular_vector s e =
     Inr (\<lparr>vec_x = 1, vec_y = 0, vec_z = 0\<rparr>, \<lparr>vec_x = 1, vec_y = 0, vec_z = 0\<rparr>)"
  by (simp add: compute_perpendicular_vector_def segment_length_def math_sqrt_total)

lemma unit_draws_stl: "unit_draws g \<Longrightarrow> unit_draws (stl g)"
  by (auto simp: unit_draws_def dest: stl_sset)

lemma unit_draws_shd: "unit_draws g \<Longrightarrow> 0 \<le> shd g \<and> shd g < 1"
  by (simp add: unit_draws_def shd_sset)

lemma primary_spacing_bounds:
  assumes "0 < S" "unit_draws g"
  shows "S \<le> S + fst (random_uniform 0 S g)" "S + fst (random_uniform 0 S g) < 2 * S"
  using assms unit_draws_shd [of g] by (simp_all add: random_uniform_def)

lemma backfill_spacing_bounds:
  assumes "0 < S" "unit_draws g"
  shows "S \<le> S + fst (random_uniform 0 (S * (1 / 2)) g)"
    "S + fst (random_uniform 0 (S * (1 / 2)) g) < 3 / 2 * S"
  using assms unit_draws_shd [of g] by (simp_all add: random_uniform_def)

lemma packing_inv_append:
  assumes "packing_inv S L ps cur" "S \<le> sp" "0 < S" "cur + sp \<le> L"
  shows "packing_inv S L (ps @ [cur]) (cur + sp)"
  using assms by (auto simp: packing_inv_def sorted_wrt_append)

lemma primary_pass_inv:
  "0 < S \<Longrightarrow> unit_draws g \<Longrightarrow> packing_inv S L ps cur \<Longrightarrow>
   primary_pass i L S g ps cur = (ps', cur', g') \<Longrightarrow>
   packing_inv S L ps' cur' \<and> unit_draws g'"
proof (induction i arbitrary: g ps cur)
  case 0
  then show ?case by simp
next
  case (Suc i)
  let ?sp = "S + fst (random_uniform 0 S g)"
  have sp: "S \<le> ?sp" using primary_spacing_bounds(1) Suc.prems(1,2) by blast
  show ?case
  proof (cases "cur + ?sp > L")
    case True
    with Suc.prems show ?thesis
      by (auto simp: random_uniform_def dest: unit_draws_stl)
  next
    case False
    then have inv: "packing_inv S L (ps @ [cur]) (cur + ?sp)"
      using packing_inv_append [OF Suc.prems(3) sp Suc.prems(1)] by simp
    from False Suc.prems(4)
    have "primary_pass i L S (stl g) (ps @ [cur]) (cur + ?sp) = (ps', cur', g')"
      by (simp add: random_uniform_def)
    from Suc.IH [OF Suc.prems(1) unit_draws_stl [OF Suc.prems(2)] inv this]
    show ?thesis .
  qed
qed

lemma primary_pass_length:
  "primary_pass i L S g ps cur = (ps', cur', g') \<Longrightarrow> length ps' \<le> length ps + i"
proof (induction i arbitrary: g ps cur)
  case 0
  then show ?case by simp
next
  case (Suc i)
  show ?case
  proof (cases "cur + (S + fst (random_uniform 0 S g)) > L")
    case True
    with Suc.prems show ?thesis by (simp add: random_uniform_def)
  next
    case False
    with Suc.prems
    have "primary_pass i L S (stl g) (ps @ [cur]) (cur + (S + fst (random_uniform 0 S g)))
            = (ps', cur', g')"
      by (simp add: random_uniform_def)
    from Suc.IH [OF this] show ?thesis by simp
  qed
qed

lemma primary_pass_extends:
  "primary_pass i L S g ps cur = (ps', cur', g') \<Longrightarrow>
   \<exists>qs. ps' = ps @ qs \<and> (qs = [] \<longrightarrow> cur' = cur) \<and> (qs \<noteq> [] \<longrightarrow> hd qs = cur)"
proof (induction i arbitrary: g ps cur)
  case 0
  then show ?case by simp
next
  case (Suc i)
  show ?case
  proof (cases "cur + (S + fst (random_uniform 0 S g)) > L")
    case True
    with Suc.prems show ?thesis by (simp add: random_uniform_def)
  next
    case False
    with Suc.prems
    have "primary_pass i L S (stl g) (ps @ [cur]) (cur + (S + fst (random_uniform 0 S g)))
            = (ps', cur', g')"
      by (simp add: random_uniform_def)
    from Suc.IH [OF this] obtain qs where "ps' = (ps @ [cur]) @ qs" by blast
    then have "ps' = ps @ (cur # qs)" by simp
    then show ?thesis by (intro exI [of _ "cur # qs"]) simp
  qed
qed

lemma backfill_pass_stop:
  "\<not> (int (length ps) < n \<and> cur < L) \<Longrightarrow> backfill_pass n L S g ps cur = (ps, cur, g)"
  by (subst backfill_pass.simps) auto

lemma backfill_pass_break:
  "int (length ps) < n \<Longrightarrow> cur < L \<Longrightarrow>
   \<not> cur + (S + fst (random_uniform 0 (S * (1 / 2)) g)) \<le> L \<Longrightarrow>
   backfill_pass n L S g ps cur = (ps, cur, stl g)"
  by (subst backfill_pass.simps) (simp add: random_uniform_def)

lemma backfill_pass_step:
  "int (length ps) < n \<Longrightarrow> cur < L \<Longrightarrow>
   cur + (S + fst (random_uniform 0 (S * (1 / 2)) g)) \<le> L \<Longrightarrow>
   backfill_pass n L S g ps cur =
     backfill_pass n L S (stl g) (ps @ [cur]) (cur + (S + fst (random_uniform 0 (S * (1 / 2)) g)))"
  by (subst backfill_pass.simps) (simp add: random_uniform_def)

lemma backfill_pass_inv:
  "0 < S \<Longrightarrow> unit_draws g \<Longrightarrow> packing_inv S L ps cur \<Longrightarrow>
   backfill_pass n L S g ps cur = (ps', cur', g') \<Longrightarrow>
   packing_inv S L ps' cur' \<and> unit_draws g'"
proof (induction n L S g ps cur rule: backfill_pass.induct)
  case (1 n L S g ps cur)
  let ?sp = "S + fst (random_uniform 0 (S * (1 / 2)) g)"
  have sp: "S \<le> ?sp" using backfill_spacing_bounds(1) "1.prems"(1,2) by blast
  show ?case
  proof (cases "int (length ps) < n \<and> cur < L")
    case False
    with "1.prems" show ?thesis by (simp add: backfill_pass_stop)
  next
    case True
    show ?thesis
    proof (cases "cur + ?sp \<le> L")
      case False
      with True "1.prems" show ?thesis
        by (auto simp: backfill_pass_break dest: unit_draws_stl)
    next
      case le: True
      have inv: "packing_inv S L (ps @ [cur]) (cur + ?sp)"
        using packing_inv_append [OF "1.prems"(3) sp "1.prems"(1) le] .
      from True le "1.prems"(4)
      have run: "backfill_pass n L S (stl g) (ps @ [cur]) (cur + ?sp) = (ps', cur', g')"
        by (simp add: backfill_pass_step)
      have "packing_inv S L ps' cur' \<and> unit_draws g'"
        using "1.IH" [of "(fst (random_uniform 0 (S * (1 / 2)) g), stl g)"
            "fst (random_uniform 0 (S * (1 / 2)) g)" "stl g" ?sp]
          True le "1.prems"(1) unit_draws_stl [OF "1.prems"(2)] inv run
        by (simp add: random_uniform_def)
      then show ?thesis .
    qed
  qed
qed

lemma backfill_pass_length:
  "backfill_pass n L S g ps cur = (ps', cur', g') \<Longrightarrow>
   int (length ps') \<le> max (int (length ps)) n"
proof (induction n L S g ps cur rule: backfill_pass.induct)
  case (1 n L S g ps cur)
  let ?sp = "S + fst (random_uniform 0 (S * (1 / 2)) g)"
  show ?case
  proof (cases "int (length ps) < n \<and> cur < L")
    case False
    with "1.prems" show ?thesis by (simp add: backfill_pass_stop)
  next
    case True
    show ?thesis
    proof (cases "cur + ?sp \<le> L")
      case False
      with True "1.prems" show ?thesis by (simp add: backfill_pass_break)
    next
      case le: True
      from True le "1.prems"
      have run: "backfill_pass n L S (stl g) (ps @ [cur]) (cur + ?sp) = (ps', cur', g')"
        by (simp add: backfill_pass_step)
      have "int (length ps') \<le> max (int (length (ps @ [cur]))) n"
        using "1.IH" [of "(fst (random_uniform 0 (S * (1 / 2)) g), stl g)"
            "fst (random_uniform 0 (S * (1 / 2)) g)" "stl g" ?sp] True le run
        by (simp add: random_uniform_def)
      with True show ?thesis by simp
    qed
  qed
qed

lemma backfill_pass_extends:
  "backfill_pass n L S g ps cur = (ps', cur', g') \<Longrightarrow>
   \<exists>qs. ps' = ps @ qs \<and> (qs \<noteq> [] \<longrightarrow> hd qs = cur)"
proof (induction n L S g ps cur rule: backfill_pass.induct)
  case (1 n L S g ps cur)
  let ?sp = "S + fst (random_uniform 0 (S * (1 / 2)) g)"
  show ?case
  proof (cases "int (length ps) < n \<and> cur < L")
    case False
    with "1.prems" show ?thesis by (simp add: backfill_pass_stop)
  next
    case True
    show ?thesis
    proof (cases "cur + ?sp \<le> L")
      case False
      with True "1.prems" show ?thesis by (simp add: backfill_pass_break)
    next
      case le: True
      from True le "1.prems"
      have run: "backfill_pass n L S (stl g) (ps @ [cur]) (cur + ?sp) = (ps', cur', g')"
        by (simp add: backfill_pass_step)
      have "\<exists>qs. ps' = (ps @ [cur]) @ qs \<and> (qs \<noteq> [] \<longrightarrow> hd qs = cur + ?sp)"
        using "1.IH" [of "(fst (random_uniform 0 (S * (1 / 2)) g), stl g)"
            "fst (random_uniform 0 (S * (1 / 2)) g)" "stl g" ?sp] True le run
        by (simp add: random_uniform_def)
      then obtain qs where "ps' = (ps @ [cur]) @ qs" by blast
      then have "ps' = ps @ (cur # qs)" by simp
      then show ?thesis by (intro exI [of _ "cur # qs"]) simp
    qed
  qed
qed

lemma packing_inv_init: "packing_inv S L [] 0"
  by (simp add: packing_inv_def)

lemma spawn_distances_inv:
  assumes "0 < S" "unit_draws g" "spawn_distances L n S g = (ps, g')"
  shows "\<exists>cur. packing_inv S L ps cur \<and> unit_draws g'"
proof -
  obtain qs cur h where p: "primary_pass (nat n) L S g [] 0 = (qs, cur, h)"
    by (cases "primary_pass (nat n) L S g [] 0") auto
  obtain rs cur' h' where b: "backfill_pass n L S h qs cur = (rs, cur', h')"
    by (cases "backfill_pass n L S h qs cur") auto
  from assms(3) p b have eq: "rs = ps" "h' = g'"
    by (simp_all add: spawn_distances_def)
  from primary_pass_inv [OF assms(1,2) packing_inv_init p]
  have "packing_inv S L qs cur" "unit_draws h" by simp_all
  from backfill_pass_inv [OF assms(1) this(2) this(1) b] eq
  show ?thesis by auto
qed

lemma spawn_distances_spaced:
  assumes "0 < S" "unit_draws g" "spawn_distances L n S g = (ps, g')"
  shows "sorted_wrt (\<lambda>a b. a + S \<le> b) ps" "\<forall>d \<in> set ps. 0 \<le> d \<and> d \<le> L" "unit_draws g'"
  using spawn_distances_inv [OF assms] by (auto simp: packing_inv_def)

lemma spawn_distances_length:
  assumes "spawn_distances L n S g = (ps, g')"
  shows "int (length ps) \<le> max 0 n"
proof -
  obtain qs cur h where p: "primary_pass (nat n) L S g [] 0 = (qs, cur, h)"
    by (cases "primary_pass (nat n) L S g [] 0") auto
  obtain rs cur' h' where b: "backfill_pass n L S h qs cur = (rs, cur', h')"
    by (cases "backfill_pass n L S h qs cur") auto
  from assms p b have eq: "rs = ps"
    by (simp add: spawn_distances_def)
  from primary_pass_length [OF p] have "int (length qs) \<le> max 0 n" by simp
  with backfill_pass_length [OF b] eq show ?thesis by simp
qed

lemma spawn_distances_first:
  assumes "spawn_distances L n S g = (ps, g')" "ps \<noteq> []"
  shows "hd ps = 0"
proof -
  obtain qs cur h where p: "primary_pass (nat n) L S g [] 0 = (qs, cur, h)"
    by (cases "primary_pass (nat n) L S g [] 0") auto
  obtain rs cur' h' where b: "backfill_pass n L S h qs cur = (rs, cur', h')"
    by (cases "backfill_pass n L S h qs cur") auto
  from assms p b have eq: "rs = ps"
    by (simp add: spawn_distances_def)
  from primary_pass_extends [OF p]
  have q: "qs = [] \<longrightarrow> cur = 0" "qs \<noteq> [] \<longrightarrow> hd qs = 0" by auto
  from backfill_pass_extends [OF b] obtain ts
    where t: "rs = qs @ ts" "ts \<noteq> [] \<longrightarrow> hd ts = cur" by blast
  show ?thesis
  proof (cases "qs = []")
    case True
    with t q eq assms(2) show ?thesis by auto
  next
    case False
    with t q eq show ?thesis by auto
  qed
qed

lemma pack_positions_zero:
  "pack_positions s e n 0 g = Inl ZeroDivisionError"
  by (simp add: pack_positions_def math_sqrt_total clamp_num_vehicles_def fdiv_def)

lemma pack_positions_nonzero:
  "S \<noteq> 0 \<Longrightarrow>
   pack_positions s e n S g =
     (case spawn_distances (segment_length s e)
             (if n > py_int (segment_length s e / S) then py_int (segment_length s e / S) else n)
             S g of
        (ps, g') \<Rightarrow> Inr (segment_length s e, ps, g'))"
  by (simp add: pack_positions_def segment_length_def math_sqrt_total clamp_num_vehicles_def
        fdiv_def Let_def)

lemma pack_positions_Inr:
  assumes "S \<noteq> 0"
  obtains ps g' where
    "pack_positions s e n S g = Inr (segment_length s e, ps, g')"
    "spawn_distances (segment_length s e)
       (if n > py_int (segment_length s e / S) then py_int (segment_length s e / S) else n)
       S g = (ps, g')"
  using pack_positions_nonzero [OF assms, of s e n g]
  by (cases "spawn_distances (segment_length s e)
       (if n > py_int (segment_length s e / S) then py_int (segment_length s e / S) else n)
       S g") auto

lemma sides_to_use_valid:
  "valid_side_type side_type \<Longrightarrow>
   sides_to_use side_type = Inr [''left''] \<or> sides_to_use side_type = Inr [''right'']
   \<or> sides_to_use side_type = Inr [''left'', ''right'']"
  by (auto simp: valid_side_type_def sides_to_use_def)

lemma sides_to_use_invalid:
  "\<not> valid_side_type side_type \<Longrightarrow>
   sides_to_use side_type = Inl (ValueError (''Invalid side_type: '' @ side_type
                  @ ''. Must be 'left', 'right', or 'both'' @ [CHR 0x27]))"
  by (simp add: valid_side_type_def sides_to_use_def)

lemma parking_position_eq:
  "parking_position self s e perp L side pos =
     Inr \<lparr>loc_x = loc_x s + (if L > 0 then pos / L else 0) * (loc_x e - loc_x s)
                    + (if side = ''right'' then 1 else - 1) * parking_offset self * vec_x perp,
          loc_y = loc_y s + (if L > 0 then pos / L else 0) * (loc_y e - loc_y s)
                    + (if side = ''right'' then 1 else - 1) * parking_offset self * vec_y perp,
          loc_z = loc_z s + (if L > 0 then pos / L else 0) * (loc_z e - loc_z s)\<rparr>"
  by (simp add: parking_position_def fdiv_def Let_def)

lemma random_choice_two:
  assumes "unit_draws g"
  shows "random_choice [a, b] g = Inr (if shd g * 2 < 1 then a else b, stl g)"
proof -
  from unit_draws_shd [OF assms] have u: "0 \<le> shd g" "shd g < 1" by simp_all
  show ?thesis
  proof (cases "shd g * 2 < 1")
    case True
    with u have "\<lfloor>shd g * 2\<rfloor> = 0" by (simp add: floor_eq_iff)
    with u True show ?thesis by (simp add: random_choice_def py_int_def)
  next
    case False
    with u have "\<lfloor>shd g * 2\<rfloor> = 1" by (simp add: floor_eq_iff)
    with u False show ?thesis by (simp add: random_choice_def py_int_def)
  qed
qed

text \<open>The side chosen for one placement.\<close>

lemma choose_side_cases:
  assumes "sides = [''left''] \<or> sides = [''right''] \<or> sides = [''left'', ''right'']"
    and "unit_draws g"
  shows "\<exists>side h. (if length sides > 1 then random_choice sides g
            else (case sides of [] \<Rightarrow> Inl IndexError | s # _ \<Rightarrow> Inr (s, g))) = Inr (side, h)
          \<and> side \<in> set sides \<and> unit_draws h"
  using assms random_choice_two [OF assms(2), of "''left''" "''right''"] unit_draws_stl [OF assms(2)]
  by auto

lemma spawn_transform_at_ok:
  assumes "sides = [''left''] \<or> sides = [''right''] \<or> sides = [''left'', ''right'']"
    and "unit_draws g"
  shows "\<exists>tr side h. spawn_transform_at self s e sides perp dir L pos g = Inr ((tr, side), h)
          \<and> side \<in> set sides \<and> unit_draws h"
proof -
  from choose_side_cases [OF assms] obtain side h where
    c: "(if length sides > 1 then random_choice sides g
            else (case sides of [] \<Rightarrow> Inl IndexError | s # _ \<Rightarrow> Inr (s, g))) = Inr (side, h)"
    and sd: "side \<in> set sides" and h: "unit_draws h" by blast
  show ?thesis
    unfolding spawn_transform_at_def c
    using sd unit_draws_stl [OF h]
    by (simp add: parking_position_eq random_uniform_def Let_def)
qed

lemma spawn_transforms_loop_ok:
  assumes "sides = [''left''] \<or> sides = [''right''] \<or> sides = [''left'', ''right'']"
  shows "unit_draws g \<Longrightarrow>
    \<exists>out. spawn_transforms_loop self s e sides perp dir L ps g = Inr out"
proof (induction ps arbitrary: g)
  case Nil
  then show ?case by simp
next
  case (Cons p ps)
  from spawn_transform_at_ok [OF assms Cons.prems, of self s e perp dir L p]
  obtain tr side h where
    t: "spawn_transform_at self s e sides perp dir L p g = Inr ((tr, side), h)"
    and h: "unit_draws h" by blast
  from Cons.IH [OF h] obtain rest where
    "spawn_transforms_loop self s e sides perp dir L ps h = Inr rest" by blast
  with t show ?case by simp
qed

lemma spawn_transforms_loop_length:
  "spawn_transforms_loop self s e sides perp dir L ps g = Inr out \<Longrightarrow> length out = length ps"
proof (induction ps arbitrary: g out)
  case Nil
  then show ?case by simp
next
  case (Cons p ps)
  then show ?case
    by (auto split: sum.splits prod.splits)
qed

text \<open>Every element of the result is made by one run of the loop body at the distance of
  the same index, on a generator that delivers draws of the original one.\<close>

lemma spawn_transforms_loop_nth:
  "spawn_transforms_loop self s e sides perp dir L ps g = Inr out \<Longrightarrow> i < length ps \<Longrightarrow>
   \<exists>h h'. spawn_transform_at self s e sides perp dir L (ps ! i) h = Inr (out ! i, h')
      \<and> sset h \<subseteq> sset g"
proof (induction ps arbitrary: g out i)
  case Nil
  then show ?case by simp
next
  case (Cons p ps)
  from Cons.prems(1) obtain ts g' rest where
    t: "spawn_transform_at self s e sides perp dir L p g = Inr (ts, g')"
    and r: "spawn_transforms_loop self s e sides perp dir L ps g' = Inr rest"
    and o: "out = ts # rest"
    by (auto split: sum.splits prod.splits)
  show ?case
  proof (cases i)
    case 0
    with t o show ?thesis by auto
  next
    case (Suc j)
    with Cons.prems(2) have j: "j < length ps" by simp
    from Cons.IH [OF r j] obtain h h' where
      a: "spawn_transform_at self s e sides perp dir L (ps ! j) h = Inr (rest ! j, h')"
      and b: "sset h \<subseteq> sset g'" by blast
    have "sset g' \<subseteq> sset g"
      using t
      by (auto simp: spawn_transform_at_def random_choice_def random_uniform_def Let_def
            parking_position_eq
          split: if_splits sum.splits prod.splits list.splits dest: stl_sset)
    with a b Suc o show ?thesis by auto
  qed
qed

lemma segment_length_nonneg: "0 \<le> segment_length s e"
  by (simp add: segment_length_def)

lemma generate_spawn_positions_unfold:
  assumes "compute_perpendicular_vector s e = Inr (perp, dir)"
    and "sides_to_use side_type = Inr sides"
    and "pack_positions s e n S g = Inr (L, ps, g')"
  shows "generate_spawn_positions self g s e side_type n S =
           spawn_transforms_loop self s e sides perp dir L ps g'"
  using assms by (simp add: generate_spawn_positions_def)

lemma generate_spawn_positions_ok:
  assumes "valid_side_type side_type" "pack_positions s e n S g = Inr (L, ps, g')"
    "unit_draws g'"
  shows "\<exists>out. generate_spawn_positions self g s e side_type n S = Inr out
           \<and> length out = length ps"
proof -
  obtain perp dir where c: "compute_perpendicular_vector s e = Inr (perp, dir)"
    using compute_perpendicular_vector_total [of s e] by auto
  from sides_to_use_valid [OF assms(1)] obtain sides where
    sd: "sides_to_use side_type = Inr sides"
    and sv: "sides = [''left''] \<or> sides = [''right''] \<or> sides = [''left'', ''right'']"
    by auto
  from spawn_transforms_loop_ok [OF sv assms(3)] obtain out where
    o: "spawn_transforms_loop self s e sides perp dir L ps g' = Inr out" by blast
  from spawn_transforms_loop_length [OF o] o
    generate_spawn_positions_unfold [OF c sd assms(2)]
  show ?thesis by simp
qed

text \<open>
  Claim C1. With a positive minimum spacing \<open>S\<close> on a segment of length \<open>L\<close>, whatever count is
  requested, lines 152 to 188 of \<^verbatim>\<open>generate_spawn_positions\<close> return normally with at most
  \<open>\<lfloor>L / S\<rfloor>\<close> distances, each of them in \<open>[0, L]\<close>; and for every accepted side the function
  returns one placement for each of these distances. The draws are those of a generator
  whose \<^verbatim>\<open>random()\<close> lies in \<open>[0, 1)\<close>. Neither \<open>L > 0\<close> nor a count that is not negative
  is needed.
\<close>

theorem generate_spawn_positions_capacity:
  assumes "0 < S" "unit_draws g"
  shows "\<exists>ps g'. pack_positions s e n S g = Inr (segment_length s e, ps, g')
     \<and> length ps \<le> nat \<lfloor>segment_length s e / S\<rfloor>
     \<and> (\<forall>d \<in> set ps. 0 \<le> d \<and> d \<le> segment_length s e)
     \<and> (\<forall>self side_type. valid_side_type side_type \<longrightarrow>
          (\<exists>out. generate_spawn_positions self g s e side_type n S = Inr out
             \<and> length out = length ps))"
proof -
  let ?L = "segment_length s e"
  let ?n = "if n > py_int (?L / S) then py_int (?L / S) else n"
  from assms(1) have "S \<noteq> 0" by simp
  from pack_positions_Inr [OF this, of s e n g] obtain ps g' where
    p: "pack_positions s e n S g = Inr (?L, ps, g')"
    and d: "spawn_distances ?L ?n S g = (ps, g')" by blast
  have q: "0 \<le> ?L / S" using assms(1) segment_length_nonneg [of s e] by simp
  then have "?n \<le> \<lfloor>?L / S\<rfloor>" by (simp add: py_int_def)
  moreover have "0 \<le> \<lfloor>?L / S\<rfloor>" using q by simp
  ultimately have "int (length ps) \<le> \<lfloor>?L / S\<rfloor>"
    using spawn_distances_length [OF d] by linarith
  then have len: "length ps \<le> nat \<lfloor>?L / S\<rfloor>" by linarith
  from spawn_distances_spaced [OF assms d]
  have rng: "\<forall>d \<in> set ps. 0 \<le> d \<and> d \<le> ?L" and u: "unit_draws g'" by simp_all
  have "\<forall>self side_type. valid_side_type side_type \<longrightarrow>
          (\<exists>out. generate_spawn_positions self g s e side_type n S = Inr out
             \<and> length out = length ps)"
    using generate_spawn_positions_ok [OF _ p u] by blast
  with p len rng show ?thesis by blast
qed

lemma unit_draws_sconst: "0 \<le> r \<Longrightarrow> r < 1 \<Longrightarrow> unit_draws (sconst r)"
  by (simp add: unit_draws_def)

theorem generate_spawn_positions_capacity_witness:
  "(0::real) < 10 \<and> unit_draws (sconst (1 / 2)) \<and>
   (\<exists>ps g'. pack_positions \<lparr>loc_x = 0, loc_y = 0, loc_z = 0\<rparr> \<lparr>loc_x = 30, loc_y = 0, loc_z = 0\<rparr>
               3 10 (sconst (1 / 2))
             = Inr (segment_length \<lparr>loc_x = 0, loc_y = 0, loc_z = 0\<rparr>
                      \<lparr>loc_x = 30, loc_y = 0, loc_z = 0\<rparr>, ps, g')
     \<and> length ps \<le> nat \<lfloor>segment_length \<lparr>loc_x = 0, loc_y = 0, loc_z = 0\<rparr>
                             \<lparr>loc_x = 30, loc_y = 0, loc_z = 0\<rparr> / 10\<rfloor>
     \<and> (\<forall>d \<in> set ps. 0 \<le> d \<and> d \<le> segment_length \<lparr>loc_x = 0, loc_y = 0, loc_z = 0\<rparr>
                                         \<lparr>loc_x = 30, loc_y = 0, loc_z = 0\<rparr>)
     \<and> (\<forall>self side_type. valid_side_type side_type \<longrightarrow>
          (\<exists>out. generate_spawn_positions self (sconst (1 / 2))
                    \<lparr>loc_x = 0, loc_y = 0, loc_z = 0\<rparr> \<lparr>loc_x = 30, loc_y = 0, loc_z = 0\<rparr>
                    side_type 3 10 = Inr out
             \<and> length out = length ps)))"
proof -
  have h1: "(0::real) < 10" by simp
  have h2: "unit_draws (sconst (1 / 2))" by (simp add: unit_draws_def)
  from generate_spawn_positions_capacity [OF h1 h2] h1 h2 show ?thesis by blast
qed

text \<open>A run of the packer, evaluated.\<close>

lemma pack_positions_example:
  "pack_positions \<lparr>loc_x = 0, loc_y = 0, loc_z = 0\<rparr> \<lparr>loc_x = 30, loc_y = 0, loc_z = 0\<rparr>
               3 10 (sconst (1 / 2)) = Inr (30, [0, 15], sconst (1 / 2))"
  by (simp add: pack_positions_def math_sqrt_def clamp_num_vehicles_def fdiv_def py_int_def
      spawn_distances_def numeral_3_eq_3 random_uniform_def backfill_pass_stop)

lemma primary_pass_sset:
  "primary_pass i L S g ps cur = (ps', cur', g') \<Longrightarrow> sset g' \<subseteq> sset g"
proof (induction i arbitrary: g ps cur)
  case 0
  then show ?case by simp
next
  case (Suc i)
  show ?case
  proof (cases "cur + (S + fst (random_uniform 0 S g)) > L")
    case True
    with Suc.prems show ?thesis by (auto simp: random_uniform_def dest: stl_sset)
  next
    case False
    with Suc.prems
    have "primary_pass i L S (stl g) (ps @ [cur]) (cur + (S + fst (random_uniform 0 S g)))
            = (ps', cur', g')"
      by (simp add: random_uniform_def)
    from Suc.IH [OF this] show ?thesis by (auto dest: stl_sset)
  qed
qed

lemma backfill_pass_sset:
  "backfill_pass n L S g ps cur = (ps', cur', g') \<Longrightarrow> sset g' \<subseteq> sset g"
proof (induction n L S g ps cur rule: backfill_pass.induct)
  case (1 n L S g ps cur)
  let ?sp = "S + fst (random_uniform 0 (S * (1 / 2)) g)"
  show ?case
  proof (cases "int (length ps) < n \<and> cur < L")
    case False
    with "1.prems" show ?thesis by (simp add: backfill_pass_stop)
  next
    case True
    show ?thesis
    proof (cases "cur + ?sp \<le> L")
      case False
      with True "1.prems" show ?thesis by (auto simp: backfill_pass_break dest: stl_sset)
    next
      case le: True
      from True le "1.prems"
      have run: "backfill_pass n L S (stl g) (ps @ [cur]) (cur + ?sp) = (ps', cur', g')"
        by (simp add: backfill_pass_step)
      have "sset g' \<subseteq> sset (stl g)"
        using "1.IH" [of "(fst (random_uniform 0 (S * (1 / 2)) g), stl g)"
            "fst (random_uniform 0 (S * (1 / 2)) g)" "stl g" ?sp] True le run
        by (simp add: random_uniform_def)
      then show ?thesis by (auto dest: stl_sset)
    qed
  qed
qed

lemma pack_positions_sset:
  assumes "pack_positions s e n S g = Inr (L, ps, g')"
  shows "sset g' \<subseteq> sset g"
proof -
  from assms pack_positions_zero [of s e n g] have nz: "S \<noteq> 0" by auto
  let ?n = "if n > py_int (segment_length s e / S) then py_int (segment_length s e / S) else n"
  let ?L = "segment_length s e"
  obtain qs cur h where p: "primary_pass (nat ?n) ?L S g [] 0 = (qs, cur, h)"
    by (cases "primary_pass (nat ?n) ?L S g [] 0") auto
  obtain rs cur' h' where b: "backfill_pass ?n ?L S h qs cur = (rs, cur', h')"
    by (cases "backfill_pass ?n ?L S h qs cur") auto
  from assms pack_positions_nonzero [OF nz, of s e n g] p b have "h' = g'"
    by (simp add: spawn_distances_def)
  with primary_pass_sset [OF p] backfill_pass_sset [OF b] show ?thesis by blast
qed

lemma pack_positions_length_line:
  assumes "pack_positions s e n S g = Inr (L, ps, g')"
  shows "L = segment_length s e" "S \<noteq> 0"
proof -
  from assms pack_positions_zero [of s e n g] show nz: "S \<noteq> 0" by auto
  from assms pack_positions_nonzero [OF nz, of s e n g] show "L = segment_length s e"
    by (auto split: prod.splits)
qed

text \<open>What one run of the loop body returns.\<close>

lemma choose_side_result:
  assumes "(if length sides > 1 then random_choice sides g
            else (case sides of [] \<Rightarrow> Inl IndexError | s # _ \<Rightarrow> Inr (s, g))) = Inr (side, h)"
  shows "side \<in> set sides \<and> (h = g \<or> h = stl g)"
proof (cases "length sides > 1")
  case True
  with assms have c: "random_choice sides g = Inr (side, h)" by simp
  let ?i = "py_int (shd g * real (length sides))"
  from c have r: "0 \<le> ?i" "?i < int (length sides)"
    by (auto simp: random_choice_def Let_def split: if_splits)
  then have "nat ?i < length sides" by linarith
  then have "sides ! nat ?i \<in> set sides" by simp
  with c r show ?thesis by (auto simp: random_choice_def Let_def)
next
  case False
  with assms show ?thesis by (cases sides) auto
qed

lemma spawn_transform_at_result:
  assumes "spawn_transform_at self s e sides perp dir L pos g = Inr ((tr, side), g')"
  shows "\<exists>pp u. parking_position self s e perp L side pos = Inr pp
     \<and> tr = \<lparr>location = pp\<lparr>loc_z := get_ground_height self pp + spawn_height self\<rparr>,
             rotation = \<lparr>pitch = 0, yaw = side_yaw dir side + (- 2 + 4 * u), roll = 0\<rparr>\<rparr>
     \<and> u \<in> sset g \<and> side \<in> set sides"
proof -
  let ?c = "if length sides > 1 then random_choice sides g
            else (case sides of [] \<Rightarrow> Inl IndexError | s # _ \<Rightarrow> Inr (s, g))"
  from assms obtain sd h where c: "?c = Inr (sd, h)"
    unfolding spawn_transform_at_def by (cases ?c) auto
  obtain pp where pp: "parking_position self s e perp L sd pos = Inr pp"
    by (simp add: parking_position_eq)
  have v: "spawn_transform_at self s e sides perp dir L pos g =
     Inr ((\<lparr>location = pp\<lparr>loc_z := get_ground_height self pp + spawn_height self\<rparr>,
            rotation = \<lparr>pitch = 0, yaw = side_yaw dir sd + (- 2 + 4 * shd h), roll = 0\<rparr>\<rparr>,
           sd), stl h)"
    unfolding spawn_transform_at_def c
    by (simp add: pp random_uniform_def Let_def)
  note r = assms [unfolded v, symmetric]
  from r have e1: "side = sd"
    by (simp only: sum.inject prod.inject)
  from r have e2:
    "tr = \<lparr>location = pp\<lparr>loc_z := get_ground_height self pp + spawn_height self\<rparr>,
            rotation = \<lparr>pitch = 0, yaw = side_yaw dir sd + (- 2 + 4 * shd h), roll = 0\<rparr>\<rparr>"
    by (simp only: sum.inject prod.inject)
  note eq = e1 e2
  from choose_side_result [OF c] have sd: "sd \<in> set sides" and h: "h = g \<or> h = stl g"
    by simp_all
  from h have "shd h \<in> sset g"
    by (auto simp: shd_sset intro: stl_sset)
  with eq sd pp show ?thesis by blast
qed

lemma spawn_transform_at_error:
  "spawn_transform_at self s e sides perp dir L pos g = Inl err \<Longrightarrow> err = IndexError"
  by (auto simp: spawn_transform_at_def random_choice_def random_uniform_def Let_def
        parking_position_eq
      split: if_splits sum.splits prod.splits list.splits)

lemma spawn_transforms_loop_error:
  "spawn_transforms_loop self s e sides perp dir L ps g = Inl err \<Longrightarrow> err = IndexError"
proof (induction ps arbitrary: g)
  case Nil
  then show ?case by simp
next
  case (Cons p ps)
  then show ?case
    by (auto split: sum.splits prod.splits dest: spawn_transform_at_error)
qed

text \<open>A normal return of the function, taken apart.\<close>

lemma generate_spawn_positions_Inr:
  assumes "generate_spawn_positions self g s e side_type n S = Inr out"
  obtains perp dir sides L ps g' where
    "compute_perpendicular_vector s e = Inr (perp, dir)"
    "sides_to_use side_type = Inr sides"
    "pack_positions s e n S g = Inr (L, ps, g')"
    "spawn_transforms_loop self s e sides perp dir L ps g' = Inr out"
  using assms
  by (auto simp: generate_spawn_positions_def split: sum.splits prod.splits)

section \<open>A run, evaluated\<close>

lemma compute_perpendicular_vector_east:
  "compute_perpendicular_vector (point 0 0 0) (point 30 0 0) =
     Inr (\<lparr>vec_x = 0, vec_y = 1, vec_z = 0\<rparr>, \<lparr>vec_x = 1, vec_y = 0, vec_z = 0\<rparr>)"
  by (simp add: compute_perpendicular_vector_def normalize_perp_def point_def math_sqrt_def
      fdiv_def Let_def)

lemma pack_positions_east:
  "pack_positions (point 0 0 0) (point 30 0 0) 3 10 (sconst (1 / 2)) =
     Inr (30, [0, 15], sconst (1 / 2))"
  by (simp add: pack_positions_def point_def math_sqrt_def clamp_num_vehicles_def fdiv_def
      py_int_def spawn_distances_def numeral_3_eq_3 random_uniform_def backfill_pass_stop)

lemma side_yaw_east:
  "side_yaw \<lparr>vec_x = 1, vec_y = 0, vec_z = 0\<rparr> ''left'' = 90"
  "side_yaw \<lparr>vec_x = 1, vec_y = 0, vec_z = 0\<rparr> ''right'' = - 90"
  by (simp_all add: side_yaw_def math_atan2_def math_degrees_def)

lemma generate_spawn_positions_east:
  "generate_spawn_positions default_spawner (sconst (1 / 2)) (point 0 0 0) (point 30 0 0)
     ''left'' 3 10 =
   Inr [(\<lparr>location = point 0 (- (5 / 2)) 50,
           rotation = \<lparr>pitch = 0, yaw = 90, roll = 0\<rparr>\<rparr>, ''left''),
        (\<lparr>location = point 15 (- (5 / 2)) 50,
           rotation = \<lparr>pitch = 0, yaw = 90, roll = 0\<rparr>\<rparr>, ''left'')]"
proof -
  have sd: "sides_to_use ''left'' = Inr [''left'']"
    by (simp add: sides_to_use_def)
  show ?thesis
    unfolding generate_spawn_positions_def compute_perpendicular_vector_east
      pack_positions_east sd
    by (simp add: spawn_transform_at_def parking_position_eq get_ground_height_def
        default_spawner_def void_world_def side_yaw_east random_uniform_def point_def)
qed

section \<open>The packer\<close>

lemma pack_positions_spaced:
  assumes "0 < S" "unit_draws g"
  obtains ps g' where
    "pack_positions s e n S g = Inr (segment_length s e, ps, g')"
    "sorted_wrt (\<lambda>a b. a + S \<le> b) ps"
proof -
  from assms(1) have "S \<noteq> 0" by simp
  from pack_positions_Inr [OF this, of s e n g] obtain ps g' where
    p: "pack_positions s e n S g = Inr (segment_length s e, ps, g')"
    and d: "spawn_distances (segment_length s e)
       (if n > py_int (segment_length s e / S) then py_int (segment_length s e / S) else n)
       S g = (ps, g')" by blast
  from spawn_distances_spaced(1) [OF assms d] p that show ?thesis by blast
qed

lemma pack_positions_first:
  assumes "pack_positions s e n S g = Inr (L, ps, g')" "ps \<noteq> []"
  shows "hd ps = 0"
proof -
  from pack_positions_length_line [OF assms(1)] have nz: "S \<noteq> 0" by simp
  from assms(1) pack_positions_nonzero [OF nz, of s e n g]
  have "spawn_distances (segment_length s e)
       (if n > py_int (segment_length s e / S) then py_int (segment_length s e / S) else n)
       S g = (ps, g')"
    by (auto split: prod.splits)
  from spawn_distances_first [OF this assms(2)] show ?thesis .
qed

text \<open>
  Claim C10. When \<^verbatim>\<open>generate_spawn_positions\<close> returns a list that is not empty, the first
  distance along the line is \<open>0\<close>, and the first transform lies at the start point of the
  segment moved sideways by the parking offset along the perpendicular vector (to the
  positive side for \<open>right\<close>, to the negative side otherwise).
\<close>

theorem first_placement_at_start:
  assumes "generate_spawn_positions self g s e side_type n S = Inr out" "out \<noteq> []"
  shows "\<exists>L ps g' perp dir. pack_positions s e n S g = Inr (L, ps, g')
     \<and> compute_perpendicular_vector s e = Inr (perp, dir)
     \<and> ps \<noteq> [] \<and> hd ps = 0
     \<and> loc_x (location (fst (hd out))) =
         loc_x s + (if snd (hd out) = ''right'' then 1 else - 1) * parking_offset self * vec_x perp
     \<and> loc_y (location (fst (hd out))) =
         loc_y s + (if snd (hd out) = ''right'' then 1 else - 1) * parking_offset self * vec_y perp"
proof -
  from assms(1) obtain perp dir sides L ps g' where
    c: "compute_perpendicular_vector s e = Inr (perp, dir)"
    and sd: "sides_to_use side_type = Inr sides"
    and p: "pack_positions s e n S g = Inr (L, ps, g')"
    and l: "spawn_transforms_loop self s e sides perp dir L ps g' = Inr out"
    by (rule generate_spawn_positions_Inr)
  from spawn_transforms_loop_length [OF l] assms(2) have ne: "ps \<noteq> []" by auto
  from pack_positions_first [OF p ne] have z: "hd ps = 0" .
  from ne have i: "0 < length ps" by simp
  from spawn_transforms_loop_nth [OF l i] obtain h h' where
    t0: "spawn_transform_at self s e sides perp dir L (ps ! 0) h = Inr (out ! 0, h')" by blast
  have p0: "ps ! 0 = 0" using ne z by (simp add: hd_conv_nth)
  have o0: "out ! 0 = (fst (hd out), snd (hd out))" using assms(2) by (simp add: hd_conv_nth)
  have t: "spawn_transform_at self s e sides perp dir L 0 h
             = Inr ((fst (hd out), snd (hd out)), h')"
    using t0 unfolding p0 o0 .
  from spawn_transform_at_result [OF t] obtain pp u where
    pp: "parking_position self s e perp L (snd (hd out)) 0 = Inr pp"
    and tr: "fst (hd out) =
      \<lparr>location = pp\<lparr>loc_z := get_ground_height self pp + spawn_height self\<rparr>,
       rotation = \<lparr>pitch = 0, yaw = side_yaw dir (snd (hd out)) + (- 2 + 4 * u), roll = 0\<rparr>\<rparr>"
    by blast
  have lx: "loc_x (location (fst (hd out))) = loc_x pp"
    by (subst tr) simp
  have ly: "loc_y (location (fst (hd out))) = loc_y pp"
    by (subst tr) simp
  have pv: "parking_position self s e perp L (snd (hd out)) 0 = Inr
     \<lparr>loc_x = loc_x s + (if snd (hd out) = ''right'' then 1 else - 1) * parking_offset self * vec_x perp,
      loc_y = loc_y s + (if snd (hd out) = ''right'' then 1 else - 1) * parking_offset self * vec_y perp,
      loc_z = loc_z s\<rparr>"
    by (simp add: parking_position_eq)
  from pp [symmetric, unfolded pv] have pp': "pp =
     \<lparr>loc_x = loc_x s + (if snd (hd out) = ''right'' then 1 else - 1) * parking_offset self * vec_x perp,
      loc_y = loc_y s + (if snd (hd out) = ''right'' then 1 else - 1) * parking_offset self * vec_y perp,
      loc_z = loc_z s\<rparr>"
    by (simp only: sum.inject)
  have X: "loc_x (location (fst (hd out))) =
         loc_x s + (if snd (hd out) = ''right'' then 1 else - 1) * parking_offset self * vec_x perp"
    unfolding lx by (subst pp') simp
  have Y: "loc_y (location (fst (hd out))) =
         loc_y s + (if snd (hd out) = ''right'' then 1 else - 1) * parking_offset self * vec_y perp"
    unfolding ly by (subst pp') simp
  from p c ne z X Y show ?thesis by (intro exI conjI)
qed

theorem first_placement_at_start_witness:
  "generate_spawn_positions default_spawner (sconst (1 / 2)) (point 0 0 0) (point 30 0 0)
     ''left'' 3 10 =
   Inr [(\<lparr>location = point 0 (- (5 / 2)) 50,
           rotation = \<lparr>pitch = 0, yaw = 90, roll = 0\<rparr>\<rparr>, ''left''),
        (\<lparr>location = point 15 (- (5 / 2)) 50,
           rotation = \<lparr>pitch = 0, yaw = 90, roll = 0\<rparr>\<rparr>, ''left'')]
   \<and> (\<exists>L ps g' perp dir.
         pack_positions (point 0 0 0) (point 30 0 0) 3 10 (sconst (1 / 2)) = Inr (L, ps, g')
       \<and> compute_perpendicular_vector (point 0 0 0) (point 30 0 0) = Inr (perp, dir)
       \<and> ps \<noteq> [] \<and> hd ps = 0
       \<and> loc_x (point 0 (- (5 / 2)) 50) =
           loc_x (point 0 0 0) + (- 1) * parking_offset default_spawner * vec_x perp
       \<and> loc_y (point 0 (- (5 / 2)) 50) =
           loc_y (point 0 0 0) + (- 1) * parking_offset default_spawner * vec_y perp)"
  using first_placement_at_start [OF generate_spawn_positions_east]
    generate_spawn_positions_east
  by simp

section \<open>The resolver\<close>

text \<open>
  Claim C4. On a degenerate segment (end points less than \<open>0.001\<close> apart, in particular equal
  end points) \<^verbatim>\<open>compute_perpendicular_vector\<close> returns \<open>(1, 0, 0)\<close> for the perpendicular vector
  and for the direction; and on every pair of points it returns normally, so that no
  division by zero and no other exception occurs.
\<close>

theorem compute_perpendicular_vector_safe:
  "(segment_length s e < 1 / 1000 \<longrightarrow>
      compute_perpendicular_vector s e =
        Inr (\<lparr>vec_x = 1, vec_y = 0, vec_z = 0\<rparr>, \<lparr>vec_x = 1, vec_y = 0, vec_z = 0\<rparr>))
   \<and> compute_perpendicular_vector s s =
        Inr (\<lparr>vec_x = 1, vec_y = 0, vec_z = 0\<rparr>, \<lparr>vec_x = 1, vec_y = 0, vec_z = 0\<rparr>)
   \<and> (\<exists>perp_vec line_dir. compute_perpendicular_vector s e = Inr (perp_vec, line_dir))"
proof -
  have "segment_length s s < 1 / 1000" by (simp add: segment_length_def)
  then have same: "compute_perpendicular_vector s s =
        Inr (\<lparr>vec_x = 1, vec_y = 0, vec_z = 0\<rparr>, \<lparr>vec_x = 1, vec_y = 0, vec_z = 0\<rparr>)"
    by (rule compute_perpendicular_vector_degenerate)
  from compute_perpendicular_vector_total [of s e]
  have tot: "\<exists>perp_vec line_dir. compute_perpendicular_vector s e = Inr (perp_vec, line_dir)"
    by auto
  from same tot show ?thesis
    by (simp add: compute_perpendicular_vector_degenerate)
qed

theorem compute_perpendicular_vector_safe_witness:
  "segment_length (point 1 2 3) (point 1 2 3) < 1 / 1000
   \<and> compute_perpendicular_vector (point 1 2 3) (point 1 2 3) =
        Inr (\<lparr>vec_x = 1, vec_y = 0, vec_z = 0\<rparr>, \<lparr>vec_x = 1, vec_y = 0, vec_z = 0\<rparr>)"
proof -
  have h: "segment_length (point 1 2 3) (point 1 2 3) < 1 / 1000"
    by (simp add: segment_length_def)
  with compute_perpendicular_vector_safe [of "point 1 2 3" "point 1 2 3"] show ?thesis
    by simp
qed

section \<open>Errors\<close>

lemma pack_positions_error:
  "pack_positions s e n S g = Inl err \<Longrightarrow> err = ZeroDivisionError"
  by (cases "S = 0") (auto simp: pack_positions_zero pack_positions_nonzero split: prod.splits)

text \<open>
  Claim C7. A \<^verbatim>\<open>side_type\<close> other than \<open>left\<close>, \<open>right\<close> and \<open>both\<close> makes
  \<^verbatim>\<open>generate_spawn_positions\<close> raise the \<^verbatim>\<open>ValueError\<close> of the side check, whatever the other
  arguments are, so that no placement is returned; with one of the three the function never
  raises a \<^verbatim>\<open>ValueError\<close>.
\<close>

theorem invalid_side_type_raises:
  "(\<not> valid_side_type side_type \<longrightarrow>
      generate_spawn_positions self g s e side_type n S =
        Inl (ValueError (''Invalid side_type: '' @ side_type
               @ ''. Must be 'left', 'right', or 'both'' @ [CHR 0x27])))
   \<and> (valid_side_type side_type \<longrightarrow>
        (\<forall>m. generate_spawn_positions self g s e side_type n S \<noteq> Inl (ValueError m)))"
proof (intro conjI impI allI)
  obtain perp dir where c: "compute_perpendicular_vector s e = Inr (perp, dir)"
    using compute_perpendicular_vector_total [of s e] by auto
  {
    assume "\<not> valid_side_type side_type"
    from sides_to_use_invalid [OF this]
    show "generate_spawn_positions self g s e side_type n S =
        Inl (ValueError (''Invalid side_type: '' @ side_type
               @ ''. Must be 'left', 'right', or 'both'' @ [CHR 0x27]))"
      by (simp add: generate_spawn_positions_def c)
  }
  fix m
  assume "valid_side_type side_type"
  from sides_to_use_valid [OF this] obtain sides where
    sd: "sides_to_use side_type = Inr sides" by auto
  show "generate_spawn_positions self g s e side_type n S \<noteq> Inl (ValueError m)"
  proof
    assume a: "generate_spawn_positions self g s e side_type n S = Inl (ValueError m)"
    show False
    proof (cases "pack_positions s e n S g")
      case (Inl err)
      with a c sd pack_positions_error [OF Inl] show False
        by (simp add: generate_spawn_positions_def)
    next
      case (Inr r)
      obtain L ps g' where r: "r = (L, ps, g')" by (cases r) auto
      from a c sd Inr r
      have "spawn_transforms_loop self s e sides perp dir L ps g' = Inl (ValueError m)"
        by (simp add: generate_spawn_positions_def)
      from spawn_transforms_loop_error [OF this] show False by simp
    qed
  qed
qed

theorem invalid_side_type_raises_witness:
  "\<not> valid_side_type ''up''
   \<and> generate_spawn_positions default_spawner (sconst (1 / 2)) (point 0 0 0) (point 30 0 0)
        ''up'' 3 10 =
        Inl (ValueError (''Invalid side_type: up. Must be 'left', 'right', or 'both'' @ [CHR 0x27]))
   \<and> valid_side_type ''left''
   \<and> (\<forall>m. generate_spawn_positions default_spawner (sconst (1 / 2)) (point 0 0 0) (point 30 0 0)
          ''left'' 3 10 \<noteq> Inl (ValueError m))"
proof -
  have h1: "\<not> valid_side_type ''up''" by (simp add: valid_side_type_def)
  have h2: "valid_side_type ''left''" by (simp add: valid_side_type_def)
  from h1 h2
    invalid_side_type_raises [of "''up''" default_spawner "sconst (1 / 2)" "point 0 0 0"
      "point 30 0 0" 3 10]
    invalid_side_type_raises [of "''left''" default_spawner "sconst (1 / 2)" "point 0 0 0"
      "point 30 0 0" 3 10]
  show ?thesis by simp
qed

section \<open>Negative spacing\<close>

lemma py_int_nonpos: "q \<le> 0 \<Longrightarrow> py_int q \<le> 0"
  by (auto simp: py_int_def)

lemma spawn_distances_nonpos:
  "n \<le> 0 \<Longrightarrow> spawn_distances L n S g = ([], g)"
  by (simp add: spawn_distances_def backfill_pass_stop)

lemma pack_positions_negative:
  assumes "S < 0"
  shows "pack_positions s e n S g = Inr (segment_length s e, [], g)"
proof -
  from assms have nz: "S \<noteq> 0" by simp
  let ?L = "segment_length s e"
  from assms segment_length_nonneg [of s e] have "?L / S \<le> 0"
    by (simp add: divide_nonneg_neg)
  then have "py_int (?L / S) \<le> 0" by (rule py_int_nonpos)
  then have "(if n > py_int (?L / S) then py_int (?L / S) else n) \<le> 0" by simp
  from spawn_distances_nonpos [OF this] show ?thesis
    by (simp add: pack_positions_nonzero [OF nz])
qed

lemma generate_spawn_positions_negative:
  assumes "S < 0" "valid_side_type side_type"
  shows "generate_spawn_positions self g s e side_type n S = Inr []"
proof -
  obtain perp dir where c: "compute_perpendicular_vector s e = Inr (perp, dir)"
    using compute_perpendicular_vector_total [of s e] by auto
  from sides_to_use_valid [OF assms(2)] obtain sides where
    sd: "sides_to_use side_type = Inr sides" by auto
  from generate_spawn_positions_unfold [OF c sd pack_positions_negative [OF assms(1)]]
  show ?thesis by simp
qed

text \<open>
  Claim C3, as the code has it. A negative \<^verbatim>\<open>min_spacing\<close> is not rejected: with an accepted
  \<^verbatim>\<open>side_type\<close> the capacity \<^verbatim>\<open>int(line_length / min_spacing)\<close> is at most \<open>0\<close>, the count is
  clamped to it, neither loop runs, and the function returns the empty list without raising.
\<close>

theorem negative_spacing_returns_empty:
  assumes "S < 0" "valid_side_type side_type"
  shows "generate_spawn_positions self g s e side_type n S = Inr []"
  using assms by (rule generate_spawn_positions_negative)

theorem negative_spacing_returns_empty_witness:
  "(- 1 :: real) < 0 \<and> valid_side_type ''both''
   \<and> generate_spawn_positions default_spawner (sconst (1 / 2)) (point 0 0 0) (point 30 0 0)
        ''both'' 5 (- 1) = Inr []"
proof -
  have h1: "(- 1 :: real) < 0" by simp
  have h2: "valid_side_type ''both''" by (simp add: valid_side_type_def)
  from h1 h2 negative_spacing_returns_empty [OF h1 h2] show ?thesis by simp
qed

text \<open>The claim as stated fails: the call below has a negative spacing and returns normally.\<close>

theorem negative_spacing_counterexample:
  "generate_spawn_positions default_spawner (sconst (1 / 2)) (point 0 0 0) (point 30 0 0)
     ''left'' 3 (- 1) = Inr []"
proof -
  have h1: "(- 1 :: real) < 0" by simp
  have h2: "valid_side_type ''left''" by (simp add: valid_side_type_def)
  from generate_spawn_positions_negative [OF h1 h2] show ?thesis .
qed

section \<open>Poses\<close>

lemma generate_spawn_positions_east_run:
  "generate_spawn_positions default_spawner (sconst (1 / 2)) (point 0 0 0) (point 30 0 0)
     ''left'' 3 10 = Inr east_placements"
  unfolding east_placements_def by (rule generate_spawn_positions_east)

lemma get_ground_height_miss:
  "cast_ray (world self) \<lparr>loc_x = loc_x p, loc_y = loc_y p, loc_z = loc_z p + 1000\<rparr>
     \<lparr>loc_x = loc_x p, loc_y = loc_y p, loc_z = loc_z p - 1000\<rparr> = [] \<Longrightarrow>
   get_ground_height self p = loc_z p"
  by (simp add: get_ground_height_def)

text \<open>Every placement of a normal return, by its index.\<close>

lemma generate_spawn_positions_nth:
  assumes "generate_spawn_positions self g s e side_type n S = Inr out" "i < length out"
  obtains L ps g' perp dir sides pp u where
    "pack_positions s e n S g = Inr (L, ps, g')"
    "compute_perpendicular_vector s e = Inr (perp, dir)"
    "sides_to_use side_type = Inr sides"
    "i < length ps"
    "parking_position self s e perp L (snd (out ! i)) (ps ! i) = Inr pp"
    "fst (out ! i) =
       \<lparr>location = pp\<lparr>loc_z := get_ground_height self pp + spawn_height self\<rparr>,
        rotation = \<lparr>pitch = 0, yaw = side_yaw dir (snd (out ! i)) + (- 2 + 4 * u), roll = 0\<rparr>\<rparr>"
    "u \<in> sset g" "snd (out ! i) \<in> set sides"
proof -
  from assms(1) obtain perp dir sides L ps g' where
    c: "compute_perpendicular_vector s e = Inr (perp, dir)"
    and sd: "sides_to_use side_type = Inr sides"
    and p: "pack_positions s e n S g = Inr (L, ps, g')"
    and l: "spawn_transforms_loop self s e sides perp dir L ps g' = Inr out"
    by (rule generate_spawn_positions_Inr)
  from spawn_transforms_loop_length [OF l] assms(2) have i: "i < length ps" by simp
  from spawn_transforms_loop_nth [OF l i] obtain h h' where
    t0: "spawn_transform_at self s e sides perp dir L (ps ! i) h = Inr (out ! i, h')"
    and hs: "sset h \<subseteq> sset g'" by blast
  have t: "spawn_transform_at self s e sides perp dir L (ps ! i) h
             = Inr ((fst (out ! i), snd (out ! i)), h')"
    using t0 by simp
  from spawn_transform_at_result [OF t] obtain pp u where
    pp: "parking_position self s e perp L (snd (out ! i)) (ps ! i) = Inr pp"
    and tr: "fst (out ! i) =
      \<lparr>location = pp\<lparr>loc_z := get_ground_height self pp + spawn_height self\<rparr>,
       rotation = \<lparr>pitch = 0, yaw = side_yaw dir (snd (out ! i)) + (- 2 + 4 * u), roll = 0\<rparr>\<rparr>"
    and u: "u \<in> sset h" and sm: "snd (out ! i) \<in> set sides"
    by blast
  from u hs pack_positions_sset [OF p] have ug: "u \<in> sset g" by blast
  from p c sd i pp tr ug sm show thesis by (rule that)
qed

text \<open>
  Claim C5. For every placement of a normal return: its parking position before the ground
  query has the \<open>z\<close> of the interpolated point of the line, and when \<^verbatim>\<open>cast_ray\<close> returns no hit
  for the ray through that position, \<^verbatim>\<open>get_ground_height\<close> returns that \<open>z\<close> and the \<open>z\<close> of the
  placement is that \<open>z\<close> plus \<^verbatim>\<open>spawn_height\<close>.
\<close>

theorem ground_miss_falls_back:
  assumes "generate_spawn_positions self g s e side_type n S = Inr out" "i < length out"
  shows "\<exists>L ps g' perp dir pp.
       pack_positions s e n S g = Inr (L, ps, g')
     \<and> compute_perpendicular_vector s e = Inr (perp, dir)
     \<and> i < length ps
     \<and> parking_position self s e perp L (snd (out ! i)) (ps ! i) = Inr pp
     \<and> loc_z pp = loc_z s + (if L > 0 then ps ! i / L else 0) * (loc_z e - loc_z s)
     \<and> (cast_ray (world self) \<lparr>loc_x = loc_x pp, loc_y = loc_y pp, loc_z = loc_z pp + 1000\<rparr>
           \<lparr>loc_x = loc_x pp, loc_y = loc_y pp, loc_z = loc_z pp - 1000\<rparr> = [] \<longrightarrow>
          get_ground_height self pp = loc_z pp
          \<and> loc_z (location (fst (out ! i))) = loc_z pp + spawn_height self)"
proof -
  from assms obtain L ps g' perp dir sides pp u where
    p: "pack_positions s e n S g = Inr (L, ps, g')"
    and c: "compute_perpendicular_vector s e = Inr (perp, dir)"
    and i: "i < length ps"
    and pp: "parking_position self s e perp L (snd (out ! i)) (ps ! i) = Inr pp"
    and tr: "fst (out ! i) =
       \<lparr>location = pp\<lparr>loc_z := get_ground_height self pp + spawn_height self\<rparr>,
        rotation = \<lparr>pitch = 0, yaw = side_yaw dir (snd (out ! i)) + (- 2 + 4 * u), roll = 0\<rparr>\<rparr>"
    by (rule generate_spawn_positions_nth)
  have z: "loc_z (location (fst (out ! i))) = get_ground_height self pp + spawn_height self"
    by (subst tr) simp
  from pp [symmetric] have
    pz: "loc_z pp = loc_z s + (if L > 0 then ps ! i / L else 0) * (loc_z e - loc_z s)"
    unfolding parking_position_eq by (auto simp only: sum.inject Location.simps)
  have miss: "cast_ray (world self) \<lparr>loc_x = loc_x pp, loc_y = loc_y pp, loc_z = loc_z pp + 1000\<rparr>
           \<lparr>loc_x = loc_x pp, loc_y = loc_y pp, loc_z = loc_z pp - 1000\<rparr> = [] \<longrightarrow>
          get_ground_height self pp = loc_z pp
          \<and> loc_z (location (fst (out ! i))) = loc_z pp + spawn_height self"
    using z get_ground_height_miss [of self pp] by simp
  from p c i pp pz miss show ?thesis by (intro exI conjI)
qed

theorem ground_miss_falls_back_witness:
  "generate_spawn_positions default_spawner (sconst (1 / 2)) (point 0 0 0) (point 30 0 0)
     ''left'' 3 10 = Inr east_placements
   \<and> (1::nat) < length east_placements
   \<and> (\<exists>L ps g' perp dir pp.
       pack_positions (point 0 0 0) (point 30 0 0) 3 10 (sconst (1 / 2)) = Inr (L, ps, g')
     \<and> compute_perpendicular_vector (point 0 0 0) (point 30 0 0) = Inr (perp, dir)
     \<and> 1 < length ps
     \<and> parking_position default_spawner (point 0 0 0) (point 30 0 0) perp L
           (snd (east_placements ! 1)) (ps ! 1) = Inr pp
     \<and> loc_z pp = loc_z (point 0 0 0)
           + (if L > 0 then ps ! 1 / L else 0) * (loc_z (point 30 0 0) - loc_z (point 0 0 0))
     \<and> (cast_ray (world default_spawner)
            \<lparr>loc_x = loc_x pp, loc_y = loc_y pp, loc_z = loc_z pp + 1000\<rparr>
            \<lparr>loc_x = loc_x pp, loc_y = loc_y pp, loc_z = loc_z pp - 1000\<rparr> = [] \<longrightarrow>
          get_ground_height default_spawner pp = loc_z pp
          \<and> loc_z (location (fst (east_placements ! 1))) = loc_z pp + spawn_height default_spawner))
   \<and> cast_ray (world default_spawner) (point 15 (- (5 / 2)) 1000) (point 15 (- (5 / 2)) (- 1000)) = []
   \<and> loc_z (location (fst (east_placements ! 1))) = 0 + spawn_height default_spawner"
proof -
  have h2: "(1::nat) < length east_placements" by (simp add: east_placements_def)
  have w: "cast_ray (world default_spawner) (point 15 (- (5 / 2)) 1000)
             (point 15 (- (5 / 2)) (- 1000)) = []"
    by (simp add: default_spawner_def void_world_def)
  have z: "loc_z (location (fst (east_placements ! 1))) = 0 + spawn_height default_spawner"
    by (simp add: east_placements_def default_spawner_def point_def)
  from generate_spawn_positions_east_run h2
    ground_miss_falls_back [OF generate_spawn_positions_east_run h2] w z
  show ?thesis by (intro conjI)
qed

lemma sides_to_use_Inr:
  "sides_to_use side_type = Inr sides \<Longrightarrow> set sides \<subseteq> {''left'', ''right''}"
  by (auto simp: sides_to_use_def split: if_splits)

lemma side_yaw_due_east:
  "side_yaw east ''left'' = 90" "side_yaw east ''right'' = - 90"
  by (simp_all add: east_def side_yaw_east)

text \<open>
  Claim C6. Every transform of a normal return has pitch \<open>0\<close> and roll \<open>0\<close> and its side is
  \<open>left\<close> or \<open>right\<close>. With draws in \<open>[0, 1)\<close> its yaw differs from the yaw before the random
  variation by at most \<open>2\<close> degrees; and for the line direction \<open>(1, 0, 0)\<close> the yaw before the
  variation is \<open>90\<close> on the left and \<open>-90\<close> on the right.
\<close>

theorem yaw_of_eastward_line:
  assumes "generate_spawn_positions self g s e side_type n S = Inr out" "(tr, side) \<in> set out"
  shows "pitch (rotation tr) = 0 \<and> roll (rotation tr) = 0
     \<and> (side = ''left'' \<or> side = ''right'')
     \<and> side_yaw east ''left'' = 90 \<and> side_yaw east ''right'' = - 90
     \<and> (unit_draws g \<longrightarrow>
          (\<forall>perp_vec line_dir. compute_perpendicular_vector s e = Inr (perp_vec, line_dir) \<longrightarrow>
             \<bar>yaw (rotation tr) - side_yaw line_dir side\<bar> \<le> 2
             \<and> (line_dir = east \<longrightarrow>
                  (side = ''left'' \<longrightarrow> \<bar>yaw (rotation tr) - 90\<bar> \<le> 2)
                  \<and> (side = ''right'' \<longrightarrow> \<bar>yaw (rotation tr) - (- 90)\<bar> \<le> 2))))"
proof -
  from assms(2) obtain i where i: "i < length out" and oi: "out ! i = (tr, side)"
    by (auto simp: in_set_conv_nth)
  from assms(1) i obtain L ps g' perp dir sides pp u where
    c: "compute_perpendicular_vector s e = Inr (perp, dir)"
    and sd: "sides_to_use side_type = Inr sides"
    and tr0: "fst (out ! i) =
       \<lparr>location = pp\<lparr>loc_z := get_ground_height self pp + spawn_height self\<rparr>,
        rotation = \<lparr>pitch = 0, yaw = side_yaw dir (snd (out ! i)) + (- 2 + 4 * u), roll = 0\<rparr>\<rparr>"
    and u: "u \<in> sset g" and sm: "snd (out ! i) \<in> set sides"
    by (rule generate_spawn_positions_nth)
  from tr0 oi have tr: "tr =
       \<lparr>location = pp\<lparr>loc_z := get_ground_height self pp + spawn_height self\<rparr>,
        rotation = \<lparr>pitch = 0, yaw = side_yaw dir side + (- 2 + 4 * u), roll = 0\<rparr>\<rparr>"
    by simp
  have pr: "pitch (rotation tr) = 0" "roll (rotation tr) = 0"
    and yw: "yaw (rotation tr) = side_yaw dir side + (- 2 + 4 * u)"
    by (simp_all add: tr)
  from sm oi sides_to_use_Inr [OF sd] have side: "side = ''left'' \<or> side = ''right''"
    by auto
  have jitter: "unit_draws g \<longrightarrow>
          (\<forall>perp_vec line_dir. compute_perpendicular_vector s e = Inr (perp_vec, line_dir) \<longrightarrow>
             \<bar>yaw (rotation tr) - side_yaw line_dir side\<bar> \<le> 2
             \<and> (line_dir = east \<longrightarrow>
                  (side = ''left'' \<longrightarrow> \<bar>yaw (rotation tr) - 90\<bar> \<le> 2)
                  \<and> (side = ''right'' \<longrightarrow> \<bar>yaw (rotation tr) - (- 90)\<bar> \<le> 2)))"
  proof (intro impI allI)
    fix perp_vec line_dir
    assume ud: "unit_draws g"
      and c': "compute_perpendicular_vector s e = Inr (perp_vec, line_dir)"
    from c c' have d: "line_dir = dir" by simp
    from ud u have "0 \<le> u" "u < 1" by (auto simp: unit_draws_def)
    then have b: "\<bar>yaw (rotation tr) - side_yaw dir side\<bar> \<le> 2"
      unfolding yw by (simp add: abs_le_iff)
    show "\<bar>yaw (rotation tr) - side_yaw line_dir side\<bar> \<le> 2
             \<and> (line_dir = east \<longrightarrow>
                  (side = ''left'' \<longrightarrow> \<bar>yaw (rotation tr) - 90\<bar> \<le> 2)
                  \<and> (side = ''right'' \<longrightarrow> \<bar>yaw (rotation tr) - (- 90)\<bar> \<le> 2))"
      using b side_yaw_due_east unfolding d by auto
  qed
  from pr side side_yaw_due_east jitter show ?thesis by (intro conjI)
qed

theorem yaw_of_eastward_line_witness:
  "generate_spawn_positions default_spawner (sconst (1 / 2)) (point 0 0 0) (point 30 0 0)
     ''left'' 3 10 = Inr east_placements
   \<and> (fst (east_placements ! 0), ''left'') \<in> set east_placements
   \<and> unit_draws (sconst (1 / 2))
   \<and> compute_perpendicular_vector (point 0 0 0) (point 30 0 0) =
        Inr (\<lparr>vec_x = 0, vec_y = 1, vec_z = 0\<rparr>, east)
   \<and> pitch (rotation (fst (east_placements ! 0))) = 0
   \<and> roll (rotation (fst (east_placements ! 0))) = 0
   \<and> side_yaw east ''left'' = 90 \<and> side_yaw east ''right'' = - 90
   \<and> \<bar>yaw (rotation (fst (east_placements ! 0))) - 90\<bar> \<le> 2"
proof -
  have h2: "(fst (east_placements ! 0), ''left'') \<in> set east_placements"
    by (simp add: east_placements_def)
  have h3: "unit_draws (sconst (1 / 2))" by (simp add: unit_draws_def)
  have h4: "compute_perpendicular_vector (point 0 0 0) (point 30 0 0) =
        Inr (\<lparr>vec_x = 0, vec_y = 1, vec_z = 0\<rparr>, east)"
    unfolding east_def by (rule compute_perpendicular_vector_east)
  from yaw_of_eastward_line [OF generate_spawn_positions_east_run h2] h3 h4
  have "pitch (rotation (fst (east_placements ! 0))) = 0"
    "roll (rotation (fst (east_placements ! 0))) = 0"
    "side_yaw east ''left'' = 90" "side_yaw east ''right'' = - 90"
    "\<bar>yaw (rotation (fst (east_placements ! 0))) - 90\<bar> \<le> 2"
    by blast+
  with generate_spawn_positions_east_run h2 h3 h4 show ?thesis by (intro conjI)
qed

section \<open>The two scripts\<close>

lemma normalize_perp_static_eq: "normalize_perp_static v = normalize_perp v"
  by (simp add: normalize_perp_static_def normalize_perp_def)

lemma compute_perpendicular_vector_static_eq:
  "compute_perpendicular_vector_static s e = compute_perpendicular_vector s e"
  unfolding compute_perpendicular_vector_static_def compute_perpendicular_vector_def
    normalize_perp_static_eq ..

lemma sides_to_use_static_eq: "sides_to_use_static side_type = sides_to_use side_type"
  by (simp add: sides_to_use_static_def sides_to_use_def)

lemma clamp_num_vehicles_static_eq:
  "clamp_num_vehicles_static L n S = clamp_num_vehicles L n S"
  by (simp add: clamp_num_vehicles_static_def clamp_num_vehicles_def)

lemma primary_pass_static_eq:
  "primary_pass_static i L S g ps cur = primary_pass i L S g ps cur"
  by (induction i arbitrary: g ps cur) (simp_all add: Let_def split: prod.splits)

lemma backfill_pass_static_eq:
  "backfill_pass_static n L S g ps cur = backfill_pass n L S g ps cur"
proof (induction n L S g ps cur rule: backfill_pass.induct)
  case (1 n L S g ps cur)
  show ?case
  proof (cases "int (length ps) < n \<and> cur < L
                \<and> cur + (S + fst (random_uniform 0 (S * (1 / 2)) g)) \<le> L")
    case True
    with "1.IH" [of "(fst (random_uniform 0 (S * (1 / 2)) g), stl g)"
        "fst (random_uniform 0 (S * (1 / 2)) g)" "stl g"
        "S + fst (random_uniform 0 (S * (1 / 2)) g)"]
    have "backfill_pass_static n L S (stl g) (ps @ [cur])
            (cur + (S + fst (random_uniform 0 (S * (1 / 2)) g)))
          = backfill_pass n L S (stl g) (ps @ [cur])
              (cur + (S + fst (random_uniform 0 (S * (1 / 2)) g)))"
      by (simp add: random_uniform_def)
    with True show ?thesis
      by (subst backfill_pass_static.simps, subst backfill_pass.simps)
        (simp add: random_uniform_def)
  next
    case False
    then show ?thesis
      by (subst backfill_pass_static.simps, subst backfill_pass.simps)
        (auto simp: random_uniform_def)
  qed
qed

lemma spawn_distances_static_eq:
  "spawn_distances_static L n S g = spawn_distances L n S g"
  unfolding spawn_distances_static_def spawn_distances_def primary_pass_static_eq
    backfill_pass_static_eq ..

lemma pack_positions_static_eq:
  "pack_positions_static s e n S g = pack_positions s e n S g"
  unfolding pack_positions_static_def pack_positions_def clamp_num_vehicles_static_eq
    spawn_distances_static_eq ..

lemma side_yaw_static_eq: "side_yaw_static d side = side_yaw d side"
  by (simp add: side_yaw_static_def side_yaw_def)

lemma get_ground_height_static_eq:
  assumes "world self' = world self"
  shows "get_ground_height_static self' p = get_ground_height self p"
  unfolding get_ground_height_static_def get_ground_height_def assms ..

lemma parking_position_static_eq:
  assumes "parking_offset self' = parking_offset self"
  shows "parking_position_static self' s e perp L side pos =
         parking_position self s e perp L side pos"
  unfolding parking_position_static_def parking_position_def assms ..

lemma spawn_transform_at_static_eq:
  assumes "world self' = world self" "spawn_height self' = spawn_height self"
    "parking_offset self' = parking_offset self"
  shows "spawn_transform_at_static self' s e sides perp dir L pos g =
         spawn_transform_at self s e sides perp dir L pos g"
  unfolding spawn_transform_at_static_def spawn_transform_at_def
    parking_position_static_eq [OF assms(3)] get_ground_height_static_eq [OF assms(1)]
    side_yaw_static_eq assms(2) ..

lemma spawn_transforms_loop_static_eq:
  assumes "world self' = world self" "spawn_height self' = spawn_height self"
    "parking_offset self' = parking_offset self"
  shows "spawn_transforms_loop_static self' s e sides perp dir L ps g =
         spawn_transforms_loop self s e sides perp dir L ps g"
proof (induction ps arbitrary: g)
  case Nil
  show ?case by simp
next
  case (Cons p ps)
  show ?case
    unfolding spawn_transforms_loop_static.simps spawn_transforms_loop.simps
      spawn_transform_at_static_eq [OF assms] Cons.IH ..
qed

text \<open>
  Claim C9. The two scripts compute the same spawn positions: on spawners with the same
  world, spawn height and parking offset, \<^verbatim>\<open>generate_spawn_positions\<close> of
  \<^verbatim>\<open>spawn_carpark_static.py\<close> and of \<^verbatim>\<open>spawn_carpark.py\<close> return the same result (the same list of
  transforms and sides, or the same exception) for every segment, side, count, spacing and
  sequence of draws; and so do the two \<^verbatim>\<open>compute_perpendicular_vector\<close>.
\<close>

theorem static_variant_equivalent:
  assumes "world self' = world self" "spawn_height self' = spawn_height self"
    "parking_offset self' = parking_offset self"
  shows "generate_spawn_positions_static self' g s e side_type n S =
           generate_spawn_positions self g s e side_type n S
     \<and> compute_perpendicular_vector_static s e = compute_perpendicular_vector s e"
proof
  show "generate_spawn_positions_static self' g s e side_type n S =
           generate_spawn_positions self g s e side_type n S"
    unfolding generate_spawn_positions_static_def generate_spawn_positions_def
      compute_perpendicular_vector_static_eq sides_to_use_static_eq pack_positions_static_eq
      spawn_transforms_loop_static_eq [OF assms] ..
  show "compute_perpendicular_vector_static s e = compute_perpendicular_vector s e"
    by (rule compute_perpendicular_vector_static_eq)
qed

theorem static_variant_equivalent_witness:
  "world default_static_spawner = world default_spawner
   \<and> spawn_height default_static_spawner = spawn_height default_spawner
   \<and> parking_offset default_static_spawner = parking_offset default_spawner
   \<and> generate_spawn_positions_static default_static_spawner (sconst (1 / 2)) (point 0 0 0)
        (point 30 0 0) ''left'' 3 10 = Inr east_placements
   \<and> compute_perpendicular_vector_static (point 0 0 0) (point 30 0 0) =
        Inr (\<lparr>vec_x = 0, vec_y = 1, vec_z = 0\<rparr>, \<lparr>vec_x = 1, vec_y = 0, vec_z = 0\<rparr>)"
proof -
  have h1: "world default_static_spawner = world default_spawner"
    by (simp add: default_static_spawner_def default_spawner_def)
  have h2: "spawn_height default_static_spawner = spawn_height default_spawner"
    by (simp add: default_static_spawner_def default_spawner_def)
  have h3: "parking_offset default_static_spawner = parking_offset default_spawner"
    by (simp add: default_static_spawner_def default_spawner_def)
  from static_variant_equivalent [OF h1 h2 h3, of "sconst (1 / 2)" "point 0 0 0" "point 30 0 0"
      "''left''" 3 10]
  have "generate_spawn_positions_static default_static_spawner (sconst (1 / 2)) (point 0 0 0)
        (point 30 0 0) ''left'' 3 10 = Inr east_placements"
    and "compute_perpendicular_vector_static (point 0 0 0) (point 30 0 0) =
        Inr (\<lparr>vec_x = 0, vec_y = 1, vec_z = 0\<rparr>, \<lparr>vec_x = 1, vec_y = 0, vec_z = 0\<rparr>)"
    by (simp_all add: generate_spawn_positions_east_run compute_perpendicular_vector_east)
  with h1 h2 h3 show ?thesis by (intro conjI)
qed

section \<open>The vehicle filter\<close>

lemma str_contains_sublist: "str_contains s sub \<longleftrightarrow> sublist sub s"
  by (induction s) (simp_all add: sublist_Cons_right)

lemma filter_loop_filter:
  "filter_loop bps kws acc =
     acc @ filter (\<lambda>bp. \<not> (\<exists>k \<in> set kws. sublist (str_lower k) (str_lower (bp_id bp)))) bps"
  by (induction bps arbitrary: acc) (simp_all add: Let_def list_ex_iff str_contains_sublist)

text \<open>
  Claim C8. \<^verbatim>\<open>filter_vehicles_for_line\<close> returns, in their order, exactly the blueprints whose
  lower-cased \<^verbatim>\<open>id\<close> contains the lower-cased form of no exclude keyword as a substring; for
  the pool \<open>truck.a\<close>, \<open>van.b\<close>, \<open>car.c\<close> and the keywords \<open>truck\<close>, \<open>van\<close> the result is the
  single blueprint \<open>car.c\<close>.
\<close>

theorem filter_vehicles_for_line_spec:
  "filter_vehicles_for_line bps kws =
     filter (\<lambda>bp. \<not> (\<exists>k \<in> set (case kws of None \<Rightarrow> [] | Some ks \<Rightarrow> ks).
                         sublist (str_lower k) (str_lower (bp_id bp)))) bps
   \<and> filter_vehicles_for_line
         [\<lparr>bp_id = ''truck.a''\<rparr>, \<lparr>bp_id = ''van.b''\<rparr>, \<lparr>bp_id = ''car.c''\<rparr>]
         (Some [''truck'', ''van'']) = [\<lparr>bp_id = ''car.c''\<rparr>]"
proof
  show "filter_vehicles_for_line bps kws =
     filter (\<lambda>bp. \<not> (\<exists>k \<in> set (case kws of None \<Rightarrow> [] | Some ks \<Rightarrow> ks).
                         sublist (str_lower k) (str_lower (bp_id bp)))) bps"
    by (cases kws) (simp_all add: filter_vehicles_for_line_def filter_loop_filter)
  show "filter_vehicles_for_line
         [\<lparr>bp_id = ''truck.a''\<rparr>, \<lparr>bp_id = ''van.b''\<rparr>, \<lparr>bp_id = ''car.c''\<rparr>]
         (Some [''truck'', ''van'']) = [\<lparr>bp_id = ''car.c''\<rparr>]"
    by (simp add: filter_vehicles_for_line_def str_lower_def lower_char_def)
qed

theorem filter_vehicles_for_line_spec_witness:
  "filter_vehicles_for_line
     [\<lparr>bp_id = ''vehicle.Ford.TRUCK''\<rparr>, \<lparr>bp_id = ''vehicle.audi.a2''\<rparr>,
      \<lparr>bp_id = ''vehicle.vw.t2''\<rparr>] (Some [''Truck'', ''T2''])
   = [\<lparr>bp_id = ''vehicle.audi.a2''\<rparr>]
   \<and> filter_vehicles_for_line
         [\<lparr>bp_id = ''truck.a''\<rparr>, \<lparr>bp_id = ''van.b''\<rparr>, \<lparr>bp_id = ''car.c''\<rparr>] None
       = [\<lparr>bp_id = ''truck.a''\<rparr>, \<lparr>bp_id = ''van.b''\<rparr>, \<lparr>bp_id = ''car.c''\<rparr>]"
proof -
  have l1: "str_lower ''Truck'' = ''truck''" by code_simp
  have l2: "str_lower ''T2'' = ''t2''" by code_simp
  have l3: "str_lower ''vehicle.Ford.TRUCK'' = ''vehicle.ford.truck''" by code_simp
  have l4: "str_lower ''vehicle.audi.a2'' = ''vehicle.audi.a2''" by code_simp
  have l5: "str_lower ''vehicle.vw.t2'' = ''vehicle.vw.t2''" by code_simp
  note low = l1 l2 l3 l4 l5
  have a: "filter_vehicles_for_line
     [\<lparr>bp_id = ''vehicle.Ford.TRUCK''\<rparr>, \<lparr>bp_id = ''vehicle.audi.a2''\<rparr>,
      \<lparr>bp_id = ''vehicle.vw.t2''\<rparr>] (Some [''Truck'', ''T2''])
   = [\<lparr>bp_id = ''vehicle.audi.a2''\<rparr>]"
    by (subst filter_vehicles_for_line_spec [THEN conjunct1])
      (simp add: low str_contains_sublist [symmetric])
  have b: "filter_vehicles_for_line
         [\<lparr>bp_id = ''truck.a''\<rparr>, \<lparr>bp_id = ''van.b''\<rparr>, \<lparr>bp_id = ''car.c''\<rparr>] None
       = [\<lparr>bp_id = ''truck.a''\<rparr>, \<lparr>bp_id = ''van.b''\<rparr>, \<lparr>bp_id = ''car.c''\<rparr>]"
    by (subst filter_vehicles_for_line_spec [THEN conjunct1]) simp
  from a b show ?thesis by (rule conjI)
qed

section \<open>Spacing of the placements\<close>

lemma spacing_within_snoc:
  assumes "spacing_within m lo hi (xs @ [a])" "lo \<le> b - a" "b - a < hi"
  shows "spacing_within m lo hi ((xs @ [a]) @ [b])"
  unfolding spacing_within_def
proof (intro allI impI)
  fix i
  assume m: "m \<le> i" and i: "Suc i < length ((xs @ [a]) @ [b])"
  show "lo \<le> ((xs @ [a]) @ [b]) ! Suc i - ((xs @ [a]) @ [b]) ! i
        \<and> ((xs @ [a]) @ [b]) ! Suc i - ((xs @ [a]) @ [b]) ! i < hi"
  proof (cases "Suc i < length (xs @ [a])")
    case True
    then have "((xs @ [a]) @ [b]) ! Suc i = (xs @ [a]) ! Suc i"
      "((xs @ [a]) @ [b]) ! i = (xs @ [a]) ! i"
      by (simp_all add: nth_append)
    with assms(1) m True show ?thesis by (simp add: spacing_within_def)
  next
    case False
    with i have e: "i = length xs" by simp
    have "((xs @ [a]) @ [b]) ! Suc i = b" unfolding e by (simp add: nth_append)
    moreover have "((xs @ [a]) @ [b]) ! i = a" unfolding e by (simp add: nth_append)
    ultimately show ?thesis using assms(2,3) by simp
  qed
qed

lemma spacing_within_mono:
  "spacing_within m lo hi ds \<Longrightarrow> hi \<le> hi' \<Longrightarrow> spacing_within m lo hi' ds"
  unfolding spacing_within_def by fastforce

lemma spacing_within_start:
  "spacing_within (length ps) lo hi (ps @ [cur])"
  by (simp add: spacing_within_def)

lemma primary_pass_spacing:
  "0 < S \<Longrightarrow> unit_draws g \<Longrightarrow> spacing_within m S (2 * S) (ps @ [cur]) \<Longrightarrow>
   primary_pass i L S g ps cur = (ps', cur', g') \<Longrightarrow>
   spacing_within m S (2 * S) (ps' @ [cur'])"
proof (induction i arbitrary: g ps cur)
  case 0
  then show ?case by simp
next
  case (Suc i)
  let ?sp = "S + fst (random_uniform 0 S g)"
  have sp: "S \<le> ?sp" "?sp < 2 * S"
    using primary_spacing_bounds [OF Suc.prems(1,2)] by simp_all
  show ?case
  proof (cases "cur + ?sp > L")
    case True
    with Suc.prems show ?thesis by (simp add: random_uniform_def)
  next
    case False
    have "spacing_within m S (2 * S) ((ps @ [cur]) @ [cur + ?sp])"
      using spacing_within_snoc [OF Suc.prems(3), of "cur + ?sp"] sp by simp
    moreover from False Suc.prems(4)
    have "primary_pass i L S (stl g) (ps @ [cur]) (cur + ?sp) = (ps', cur', g')"
      by (simp add: random_uniform_def)
    ultimately show ?thesis
      using Suc.IH [OF Suc.prems(1) unit_draws_stl [OF Suc.prems(2)]] by blast
  qed
qed

lemma backfill_pass_spacing:
  "0 < S \<Longrightarrow> unit_draws g \<Longrightarrow> 3 / 2 * S \<le> hi \<Longrightarrow>
   spacing_within m S hi (ps @ [cur]) \<Longrightarrow>
   backfill_pass n L S g ps cur = (ps', cur', g') \<Longrightarrow>
   spacing_within m S hi (ps' @ [cur'])"
proof (induction n L S g ps cur rule: backfill_pass.induct)
  case (1 n L S g ps cur)
  let ?sp = "S + fst (random_uniform 0 (S * (1 / 2)) g)"
  have sp: "S \<le> ?sp" "?sp < 3 / 2 * S"
    using backfill_spacing_bounds [OF "1.prems"(1,2)] by simp_all
  show ?case
  proof (cases "int (length ps) < n \<and> cur < L")
    case False
    with "1.prems" show ?thesis by (simp add: backfill_pass_stop)
  next
    case True
    show ?thesis
    proof (cases "cur + ?sp \<le> L")
      case False
      with True "1.prems" show ?thesis by (simp add: backfill_pass_break)
    next
      case le: True
      have ext: "spacing_within m S hi ((ps @ [cur]) @ [cur + ?sp])"
        using spacing_within_snoc [OF "1.prems"(4), of "cur + ?sp"] sp "1.prems"(3) by simp
      from True le "1.prems"(5)
      have run: "backfill_pass n L S (stl g) (ps @ [cur]) (cur + ?sp) = (ps', cur', g')"
        by (simp add: backfill_pass_step)
      show ?thesis
        using "1.IH" [of "(fst (random_uniform 0 (S * (1 / 2)) g), stl g)"
            "fst (random_uniform 0 (S * (1 / 2)) g)" "stl g" ?sp]
          True le "1.prems"(1,3) unit_draws_stl [OF "1.prems"(2)] ext run
        by (simp add: random_uniform_def)
    qed
  qed
qed

lemma backfill_pass_advances:
  "0 < S \<Longrightarrow> unit_draws g \<Longrightarrow> backfill_pass n L S g ps cur = (ps', cur', g') \<Longrightarrow>
   cur \<le> cur'"
proof (induction n L S g ps cur rule: backfill_pass.induct)
  case (1 n L S g ps cur)
  let ?sp = "S + fst (random_uniform 0 (S * (1 / 2)) g)"
  have sp: "S \<le> ?sp"
    using backfill_spacing_bounds(1) [OF "1.prems"(1,2)] by simp
  show ?case
  proof (cases "int (length ps) < n \<and> cur < L")
    case False
    with "1.prems" show ?thesis by (simp add: backfill_pass_stop)
  next
    case True
    show ?thesis
    proof (cases "cur + ?sp \<le> L")
      case False
      with True "1.prems" show ?thesis by (simp add: backfill_pass_break)
    next
      case le: True
      from True le "1.prems"(3)
      have run: "backfill_pass n L S (stl g) (ps @ [cur]) (cur + ?sp) = (ps', cur', g')"
        by (simp add: backfill_pass_step)
      have "cur + ?sp \<le> cur'"
        using "1.IH" [of "(fst (random_uniform 0 (S * (1 / 2)) g), stl g)"
            "fst (random_uniform 0 (S * (1 / 2)) g)" "stl g" ?sp]
          True le "1.prems"(1) unit_draws_stl [OF "1.prems"(2)] run
        by (simp add: random_uniform_def)
      with sp "1.prems"(1) show ?thesis by simp
    qed
  qed
qed

lemma spacing_within_nth:
  assumes "spacing_within m lo hi ds" "m \<le> i" "Suc i < length ds"
  shows "ds ! i + lo \<le> ds ! Suc i" "ds ! Suc i < ds ! i + hi"
  using assms unfolding spacing_within_def by fastforce+

text \<open>
  Claim C2. With a positive minimum spacing \<open>S\<close> and draws in \<open>[0, 1)\<close>, the packing part of
  \<^verbatim>\<open>generate_spawn_positions\<close> returns normally; its distances \<open>ps\<close> are those of the primary
  pass \<open>qs\<close> followed by those of the backfill pass, and they are strictly increasing in the
  order of generation. Each distance exceeds the one before it by at least \<open>S\<close> and by less
  than \<open>2 S\<close>. Every advance of the cumulative distance in the primary pass (the chain \<open>qs\<close>,
  \<open>cur\<close>) lies in \<open>[S, 2 S)\<close>, every advance in the backfill pass (the chain from the last
  distance of the primary pass on, up to the final cumulative distance \<open>cur'\<close>) lies in
  \<open>[S, 3/2 S)\<close>, and the cumulative distance starts at or above \<open>0\<close> and never decreases.
\<close>

theorem generate_spawn_positions_monotonic:
  assumes "0 < S" "unit_draws g"
  shows "\<exists>L n' qs cur h ps cur' g'.
       pack_positions s e n S g = Inr (L, ps, g')
     \<and> clamp_num_vehicles L n S = Inr n'
     \<and> primary_pass (nat n') L S g [] 0 = (qs, cur, h)
     \<and> backfill_pass n' L S h qs cur = (ps, cur', g')
     \<and> take (length qs) ps = qs
     \<and> 0 \<le> cur \<and> cur \<le> cur'
     \<and> sorted_wrt (<) ps
     \<and> (\<forall>i. Suc i < length ps \<longrightarrow>
            ps ! i + S \<le> ps ! Suc i \<and> ps ! Suc i < ps ! i + 2 * S)
     \<and> (\<forall>i. Suc i < length (qs @ [cur]) \<longrightarrow>
            (qs @ [cur]) ! i + S \<le> (qs @ [cur]) ! Suc i
            \<and> (qs @ [cur]) ! Suc i < (qs @ [cur]) ! i + 2 * S)
     \<and> (\<forall>i. length qs \<le> i \<longrightarrow> Suc i < length (ps @ [cur']) \<longrightarrow>
            (ps @ [cur']) ! i + S \<le> (ps @ [cur']) ! Suc i
            \<and> (ps @ [cur']) ! Suc i < (ps @ [cur']) ! i + 3 / 2 * S)"
proof -
  let ?L = "segment_length s e"
  let ?n = "if n > py_int (?L / S) then py_int (?L / S) else n"
  from assms(1) have nz: "S \<noteq> 0" by simp
  have cl: "clamp_num_vehicles ?L n S = Inr ?n"
    using nz by (simp add: clamp_num_vehicles_def fdiv_def Let_def)
  obtain qs cur h where pr: "primary_pass (nat ?n) ?L S g [] 0 = (qs, cur, h)"
    by (cases "primary_pass (nat ?n) ?L S g [] 0") auto
  obtain ps cur' g' where bf: "backfill_pass ?n ?L S h qs cur = (ps, cur', g')"
    by (cases "backfill_pass ?n ?L S h qs cur") auto
  from pr bf have sd: "spawn_distances ?L ?n S g = (ps, g')"
    by (simp add: spawn_distances_def)
  have pk: "pack_positions s e n S g = Inr (?L, ps, g')"
    by (simp add: pack_positions_nonzero [OF nz] sd)
  from primary_pass_inv [OF assms packing_inv_init pr]
  have inv: "packing_inv S ?L qs cur" and uh: "unit_draws h" by simp_all
  from inv have c0: "0 \<le> cur" by (simp add: packing_inv_def)
  from backfill_pass_advances [OF assms(1) uh bf] have adv: "cur \<le> cur'" .
  from backfill_pass_extends [OF bf] obtain rs where "ps = qs @ rs" by blast
  then have tk: "take (length qs) ps = qs" by simp
  have "spacing_within 0 S (2 * S) ([] @ [0])" by (simp add: spacing_within_def)
  from primary_pass_spacing [OF assms this pr]
  have chain_p: "spacing_within 0 S (2 * S) (qs @ [cur])" .
  have "3 / 2 * S \<le> 2 * S" using assms(1) by simp
  from backfill_pass_spacing [OF assms(1) uh this chain_p bf]
  have chain_a: "spacing_within 0 S (2 * S) (ps @ [cur'])" .
  from backfill_pass_spacing [OF assms(1) uh order_refl spacing_within_start bf]
  have chain_b: "spacing_within (length qs) S (3 / 2 * S) (ps @ [cur'])" .
  from spawn_distances_spaced(1) [OF assms sd]
  have sp: "sorted_wrt (\<lambda>a b. a + S \<le> b) ps" .
  have inc: "sorted_wrt (<) ps"
  proof (rule sorted_wrt_mono_rel [OF _ sp])
    fix a b :: real
    assume "a + S \<le> b"
    with assms(1) show "a < b" by simp
  qed
  have gaps: "\<forall>i. Suc i < length ps \<longrightarrow>
            ps ! i + S \<le> ps ! Suc i \<and> ps ! Suc i < ps ! i + 2 * S"
  proof (intro allI impI)
    fix i
    assume i: "Suc i < length ps"
    then have l: "Suc i < length (ps @ [cur'])" by simp
    from i have e: "(ps @ [cur']) ! i = ps ! i" "(ps @ [cur']) ! Suc i = ps ! Suc i"
      by (simp_all add: nth_append)
    from spacing_within_nth [OF chain_a _ l]
    show "ps ! i + S \<le> ps ! Suc i \<and> ps ! Suc i < ps ! i + 2 * S"
      unfolding e by simp
  qed
  have prim: "\<forall>i. Suc i < length (qs @ [cur]) \<longrightarrow>
            (qs @ [cur]) ! i + S \<le> (qs @ [cur]) ! Suc i
            \<and> (qs @ [cur]) ! Suc i < (qs @ [cur]) ! i + 2 * S"
  proof (intro allI impI)
    fix i
    assume l: "Suc i < length (qs @ [cur])"
    from spacing_within_nth [OF chain_p _ l]
    show "(qs @ [cur]) ! i + S \<le> (qs @ [cur]) ! Suc i
            \<and> (qs @ [cur]) ! Suc i < (qs @ [cur]) ! i + 2 * S"
      by simp
  qed
  have bfill: "\<forall>i. length qs \<le> i \<longrightarrow> Suc i < length (ps @ [cur']) \<longrightarrow>
            (ps @ [cur']) ! i + S \<le> (ps @ [cur']) ! Suc i
            \<and> (ps @ [cur']) ! Suc i < (ps @ [cur']) ! i + 3 / 2 * S"
  proof (intro allI impI)
    fix i
    assume m: "length qs \<le> i" and l: "Suc i < length (ps @ [cur'])"
    from spacing_within_nth [OF chain_b m l]
    show "(ps @ [cur']) ! i + S \<le> (ps @ [cur']) ! Suc i
            \<and> (ps @ [cur']) ! Suc i < (ps @ [cur']) ! i + 3 / 2 * S"
      by simp
  qed
  from pk cl pr bf tk c0 adv inc gaps prim bfill show ?thesis
    by (intro exI conjI)
qed

text \<open>A run in which the primary pass stops after one placement and the backfill pass places
  the second: the line from \<open>(0, 0, 0)\<close> to \<open>(35, 0, 0)\<close>, three vehicles requested, spacing
  \<open>10\<close>, every draw \<open>9/10\<close>.\<close>

lemma primary_pass_backfill_run:
  "primary_pass (nat 3) 35 10 (sconst (9 / 10)) [] 0 = ([0], 19, sconst (9 / 10))"
  by (simp add: numeral_3_eq_3 random_uniform_def)

lemma backfill_pass_backfill_run:
  "backfill_pass 3 35 10 (sconst (9 / 10)) [0] 19 = ([0, 19], 67 / 2, sconst (9 / 10))"
proof -
  have "backfill_pass 3 35 10 (sconst (9 / 10)) [0] 19
          = backfill_pass 3 35 10 (sconst (9 / 10)) [0, 19] (67 / 2)"
    by (subst backfill_pass_step) (simp_all add: random_uniform_def)
  also have "\<dots> = ([0, 19], 67 / 2, sconst (9 / 10))"
    by (subst backfill_pass_break) (simp_all add: random_uniform_def)
  finally show ?thesis .
qed

lemma pack_positions_backfill_run:
  "pack_positions (point 0 0 0) (point 35 0 0) 3 10 (sconst (9 / 10)) =
     Inr (35, [0, 19], sconst (9 / 10))"
proof -
  have "spawn_distances 35 3 10 (sconst (9 / 10)) = ([0, 19], sconst (9 / 10))"
    unfolding spawn_distances_def primary_pass_backfill_run
    by (simp add: backfill_pass_backfill_run)
  then show ?thesis
    by (simp add: pack_positions_def point_def math_sqrt_def clamp_num_vehicles_def fdiv_def
        py_int_def)
qed

theorem generate_spawn_positions_monotonic_witness:
  "(0::real) < 10 \<and> unit_draws (sconst (9 / 10))
   \<and> pack_positions (point 0 0 0) (point 35 0 0) 3 10 (sconst (9 / 10)) =
        Inr (35, [0, 19], sconst (9 / 10))
   \<and> primary_pass (nat 3) 35 10 (sconst (9 / 10)) [] 0 = ([0], 19, sconst (9 / 10))
   \<and> backfill_pass 3 35 10 (sconst (9 / 10)) [0] 19 = ([0, 19], 67 / 2, sconst (9 / 10))
   \<and> (\<exists>L n' qs cur h ps cur' g'.
       pack_positions (point 0 0 0) (point 35 0 0) 3 10 (sconst (9 / 10)) = Inr (L, ps, g')
     \<and> clamp_num_vehicles L 3 10 = Inr n'
     \<and> primary_pass (nat n') L 10 (sconst (9 / 10)) [] 0 = (qs, cur, h)
     \<and> backfill_pass n' L 10 h qs cur = (ps, cur', g')
     \<and> take (length qs) ps = qs
     \<and> 0 \<le> cur \<and> cur \<le> cur'
     \<and> sorted_wrt (<) ps
     \<and> (\<forall>i. Suc i < length ps \<longrightarrow>
            ps ! i + 10 \<le> ps ! Suc i \<and> ps ! Suc i < ps ! i + 2 * 10)
     \<and> (\<forall>i. Suc i < length (qs @ [cur]) \<longrightarrow>
            (qs @ [cur]) ! i + 10 \<le> (qs @ [cur]) ! Suc i
            \<and> (qs @ [cur]) ! Suc i < (qs @ [cur]) ! i + 2 * 10)
     \<and> (\<forall>i. length qs \<le> i \<longrightarrow> Suc i < length (ps @ [cur']) \<longrightarrow>
            (ps @ [cur']) ! i + 10 \<le> (ps @ [cur']) ! Suc i
            \<and> (ps @ [cur']) ! Suc i < (ps @ [cur']) ! i + 3 / 2 * 10))"
proof -
  have h1: "(0::real) < 10" by simp
  have h2: "unit_draws (sconst (9 / 10))" by (simp add: unit_draws_def)
  show ?thesis
    by (rule conjI [OF h1 conjI [OF h2 conjI [OF pack_positions_backfill_run
          conjI [OF primary_pass_backfill_run conjI [OF backfill_pass_backfill_run
          generate_spawn_positions_monotonic [OF h1 h2, of "point 0 0 0" "point 35 0 0" 3]]]]]])
qed

end
